theory Spec2Isabelle
  imports Complex_Main "HOL-Library.Sublist"
begin

section \<open>Python values used by the purchase transaction\<close>

text \<open>
  The price column is read through psycopg2, so the Python value of \<open>price\<close> is either a
  \<open>float\<close> (double precision column) or a \<open>decimal.Decimal\<close> (NUMERIC column, the
  fixed-point currency value of the data model). The schema is not part of the sources, so
  both are values a product row can carry. A \<open>Decimal\<close> is its coefficient and exponent
  (\<open>Decimal('100.00')\<close> is \<open>PyDecimal 10000 (-2)\<close>).

  IEEE-754 double arithmetic is a parameter of the model: the type \<open>'f\<close> of float values
  and the operations the code applies to them.
\<close>

datatype 'f pynum = PyFloat 'f | PyDecimal int int

record 'f float_ops =
  fmul :: "'f \<Rightarrow> 'f \<Rightarrow> 'f"
  fsub :: "'f \<Rightarrow> 'f \<Rightarrow> 'f"
  fround2 :: "'f \<Rightarrow> 'f"
  float_of_int :: "int \<Rightarrow> 'f"
  float_lit :: "int \<Rightarrow> int \<Rightarrow> 'f"
  fle_zero :: "'f \<Rightarrow> bool"

text \<open>
  \<open>fround2 x\<close> is \<open>round(x, 2)\<close>, \<open>float_of_int\<close> the conversion of an \<open>int\<close> operand,
  \<open>float_lit m e\<close> the double nearest to \<open>m * 10^e\<close> (the literal \<open>0.05\<close> is
  \<open>float_lit 5 (-2)\<close>; \<open>float(Decimal)\<close> is \<open>float_lit\<close> of its coefficient and exponent),
  \<open>fle_zero x\<close> the comparison \<open>x <= 0\<close>.
\<close>

datatype exn =
    HTTPException (status_code: nat) (detail: string)
  | TypeError
  | AttributeError
  | LockNotAvailable
  | DatabaseError
  | PoolError
  | InterfaceError
  | RequestValidationError "string list"

abbreviation HTTP_400_BAD_REQUEST :: nat where "HTTP_400_BAD_REQUEST \<equiv> 400"
abbreviation HTTP_404_NOT_FOUND :: nat where "HTTP_404_NOT_FOUND \<equiv> 404"
abbreviation HTTP_409_CONFLICT :: nat where "HTTP_409_CONFLICT \<equiv> 409"
abbreviation HTTP_500_INTERNAL_SERVER_ERROR :: nat where "HTTP_500_INTERNAL_SERVER_ERROR \<equiv> 500"

text \<open>
  \<open>price * purchase_data.quantity\<close>: a float times an int, or a Decimal times an int.
  The int is converted to a float first; Python raises OverflowError beyond the range of a
  double, which a quantity that passed the stock check of an integer column never reaches,
  so the conversion is a total function here. The product of a Decimal and an int is exact
  (the context precision of 28 digits is not reached by a currency amount).
\<close>

definition py_mul_int :: "'f float_ops \<Rightarrow> 'f pynum \<Rightarrow> int \<Rightarrow> 'f pynum" where
  "py_mul_int ops x q =
     (case x of
        PyFloat a \<Rightarrow> PyFloat (fmul ops a (float_of_int ops q))
      | PyDecimal c e \<Rightarrow> PyDecimal (c * q) e)"

text \<open>\<open>float(x)\<close>.\<close>

definition py_float :: "'f float_ops \<Rightarrow> 'f pynum \<Rightarrow> 'f" where
  "py_float ops x = (case x of PyFloat a \<Rightarrow> a | PyDecimal c e \<Rightarrow> float_lit ops c e)"

text \<open>
  Lines 611-613 of main.py:
  \<^verbatim>\<open>
  commission_rate = 0.05
  commission_fee = round(total_price * commission_rate, 2)
  artisan_payout = round(total_price - commission_fee, 2)
  \<close>
  \<open>Decimal * float\<close> is not defined in Python: it raises TypeError.
\<close>

definition commission_rate :: "'f float_ops \<Rightarrow> 'f" where
  "commission_rate ops = float_lit ops 5 (- 2)"

definition purchase_split :: "'f float_ops \<Rightarrow> 'f pynum \<Rightarrow> exn + 'f \<times> 'f" where
  "purchase_split ops total_price =
     (case total_price of
        PyDecimal c e \<Rightarrow> Inl TypeError
      | PyFloat t \<Rightarrow>
          (let commission_fee = fround2 ops (fmul ops t (commission_rate ops));
               artisan_payout = fround2 ops (fsub ops t commission_fee)
           in Inr (commission_fee, artisan_payout)))"

section \<open>Strings\<close>

definition digit_char :: "nat \<Rightarrow> char" where
  "digit_char d = char_of (48 + d)"

function str_nat :: "nat \<Rightarrow> string" where
  "str_nat n = (if n < 10 then [digit_char n] else str_nat (n div 10) @ [digit_char (n mod 10)])"
  by pat_completeness auto
termination
  by (relation "measure id") auto

declare str_nat.simps [simp del]

text \<open>\<open>str(i)\<close> of a Python int, as an f-string formats it.\<close>

definition str_int :: "int \<Rightarrow> string" where
  "str_int i = (if i < 0 then CHR ''-'' # str_nat (nat (- i)) else str_nat (nat i))"

text \<open>\<open>datetime.isoformat()\<close>: \<^verbatim>\<open>YYYY-MM-DDTHH:MM:SS[.ffffff][+HH:MM]\<close>.\<close>

record datetime =
  year :: nat
  month :: nat
  day :: nat
  hour :: nat
  minute :: nat
  second :: nat
  microsecond :: nat
  utcoffset :: "int option"

fun zpad :: "nat \<Rightarrow> string \<Rightarrow> string" where
  "zpad w s = replicate (w - length s) (CHR ''0'') @ s"

definition isoformat :: "datetime \<Rightarrow> string" where
  "isoformat d =
     zpad 4 (str_nat (year d)) @ ''-'' @ zpad 2 (str_nat (month d)) @ ''-'' @
     zpad 2 (str_nat (day d)) @ ''T'' @ zpad 2 (str_nat (hour d)) @ '':'' @
     zpad 2 (str_nat (minute d)) @ '':'' @ zpad 2 (str_nat (second d)) @
     (if microsecond d = 0 then [] else ''.'' @ zpad 6 (str_nat (microsecond d))) @
     (case utcoffset d of
        None \<Rightarrow> []
      | Some m \<Rightarrow>
          (if m < 0 then ''-'' else ''+'') @ zpad 2 (str_nat (nat \<bar>m\<bar> div 60)) @ '':'' @
          zpad 2 (str_nat (nat \<bar>m\<bar> mod 60)))"

section \<open>The persistent store\<close>

record 'f product =
  artisan_id :: int
  product_name :: string
  description :: string
  price :: "'f pynum"
  stock_quantity :: int
  category :: string
  image_url :: "string option"

record 'f order_row =
  ord_order_id :: int
  ord_buyer_id :: int
  ord_product_id :: int
  ord_quantity :: int
  ord_total_price :: "'f pynum"
  ord_shipping_address :: string
  ord_created_at :: datetime

record 'f transaction_row =
  txn_transaction_id :: int
  txn_order_id :: int
  txn_artisan_id :: int
  txn_buyer_id :: int
  txn_product_id :: int
  txn_amount :: "'f pynum"
  txn_commission_fee :: 'f
  txn_artisan_payout :: 'f

text \<open>
  The \<open>details\<close> column holds the JSON object the caller builds: the purchase's, or the
  \<open>{"product_name": ...}\<close> of a product creation. \<open>entity_type\<close>, \<open>entity_id\<close>,
  \<open>details\<close> and \<open>ip_address\<close> may be NULL.
\<close>

record 'f audit_details =
  det_product_name :: string
  det_quantity :: int
  det_total_price :: 'f
  det_old_stock :: int
  det_new_stock :: int

datatype 'f audit_json = PurchaseDetails "'f audit_details" | ProductCreatedDetails string

record 'f audit_row =
  aud_user_id :: int
  aud_action_type :: string
  aud_entity_type :: "string option"
  aud_entity_id :: "int option"
  aud_details :: "'f audit_json option"
  aud_ip_address :: "string option"

record 'f database =
  products :: "int \<rightharpoonup> 'f product"
  orders :: "'f order_row list"
  transactions :: "'f transaction_row list"
  audit_logs :: "'f audit_row list"

text \<open>
  The SQL statements of the purchase, and the calls on the pool, the connection and the
  cursor, in the order the interpreter makes them.
\<close>

datatype stmt = LockQuery | UpdateStock | InsertOrder | InsertTransaction | InsertAudit

datatype event =
    GetConn
  | PutConn
  | OpenCursor
  | CloseCursor
  | SetAutocommit bool
  | Execute stmt
  | Commit
  | Rollback

text \<open>
  What the store answers to one call. \<open>fault\<close> is the first call at which it raises an
  unexpected error; that call ends the \<open>try\<close> block, and the calls that still follow are
  those of the exception handlers and of the \<open>finally\<close> block: \<open>rollback()\<close>,
  \<open>cursor.close()\<close>, the setter of \<open>autocommit\<close> and \<open>putconn()\<close>.
  \<open>raises_after_fault\<close> names those of them that raise in their turn. After the error of
  a statement the connection is still usable and none does. After a lost connection psycopg2
  has marked the connection closed, and \<open>rollback()\<close> and the setter of \<open>autocommit\<close>
  raise InterfaceError on it. \<open>locked_elsewhere\<close> are the product rows whose lock another
  in-flight transaction holds; the rest are the values the store generates for the new rows.
\<close>

datatype fault_point = AtGetConn | AtCursor | AtExecute stmt | AtCommit

datatype cleanup_call = CallRollback | CallCloseCursor | CallSetAutocommit | CallPutConn

record store_env =
  fault :: "fault_point option"
  raises_after_fault :: "cleanup_call set"
  locked_elsewhere :: "int set"
  new_product_id :: int
  new_order_id :: int
  new_created_at :: datetime
  new_transaction_id :: int

text \<open>
  \<open>committed\<close> is the durable state, \<open>working\<close> the state the open transaction of the
  connection sees, \<open>pool_in_use\<close> the connections taken from the pool and not yet put back;
  \<open>connection\<close> and \<open>cursor\<close> are the local variables of the handler (False for None);
  \<open>broken\<close> holds once a call on the connection has failed with the store's fault;
  \<open>events\<close> are the calls that returned, in order.
\<close>

record 'f world =
  committed :: "'f database"
  working :: "'f database"
  pool_in_use :: nat
  connection :: bool
  cursor :: bool
  broken :: bool
  events :: "event list"

definition log_event :: "event \<Rightarrow> 'f world \<Rightarrow> 'f world" where
  "log_event ev w = w\<lparr>events := events w @ [ev]\<rparr>"

definition getconn :: "'f world \<Rightarrow> 'f world" where
  "getconn w = log_event GetConn
     (w\<lparr>pool_in_use := Suc (pool_in_use w), connection := True, working := committed w,
        broken := False\<rparr>)"

definition putconn :: "'f world \<Rightarrow> 'f world" where
  "putconn w = log_event PutConn (w\<lparr>pool_in_use := pool_in_use w - 1\<rparr>)"

definition rollback :: "'f world \<Rightarrow> 'f world" where
  "rollback w = log_event Rollback (w\<lparr>working := committed w\<rparr>)"

definition commit :: "'f world \<Rightarrow> 'f world" where
  "commit w = log_event Commit (w\<lparr>committed := working w\<rparr>)"

text \<open>
  The store's fault has hit a call on the connection; and the calls of the handlers and of
  the \<open>finally\<close> block of the purchase, each of which returns or raises.
\<close>

definition store_fails :: "'f world \<Rightarrow> 'f world" where
  "store_fails w = w\<lparr>broken := True\<rparr>"

definition cleanup_raises :: "store_env \<Rightarrow> cleanup_call \<Rightarrow> 'f world \<Rightarrow> bool" where
  "cleanup_raises env c w \<longleftrightarrow> broken w \<and> c \<in> raises_after_fault env"

definition connection_rollback :: "store_env \<Rightarrow> 'f world \<Rightarrow> exn + 'f world" where
  "connection_rollback env w =
     (if cleanup_raises env CallRollback w then Inl InterfaceError else Inr (rollback w))"

definition cursor_close :: "store_env \<Rightarrow> 'f world \<Rightarrow> exn + 'f world" where
  "cursor_close env w =
     (if cleanup_raises env CallCloseCursor w then Inl InterfaceError
      else Inr (log_event CloseCursor w))"

definition set_autocommit :: "store_env \<Rightarrow> bool \<Rightarrow> 'f world \<Rightarrow> exn + 'f world" where
  "set_autocommit env b w =
     (if cleanup_raises env CallSetAutocommit w then Inl InterfaceError
      else Inr (log_event (SetAutocommit b) w))"

definition pool_putconn :: "store_env \<Rightarrow> 'f world \<Rightarrow> exn + 'f world" where
  "pool_putconn env w =
     (if cleanup_raises env CallPutConn w then Inl PoolError else Inr (putconn w))"

text \<open>
  \<^verbatim>\<open>SELECT product_id, artisan_id, product_name, price, stock_quantity
  FROM products WHERE product_id = %s FOR UPDATE NOWAIT\<close>
  followed by \<open>fetchone()\<close>: no row gives None; a row locked by another transaction
  raises at once; any other store error raises too.
\<close>

definition select_for_update_nowait ::
  "store_env \<Rightarrow> 'f world \<Rightarrow> int \<Rightarrow> exn + (int \<times> 'f product) option" where
  "select_for_update_nowait env w pid =
     (if fault env = Some (AtExecute LockQuery) then Inl DatabaseError
      else case products (working w) pid of
             None \<Rightarrow> Inr None
           | Some row \<Rightarrow>
               if pid \<in> locked_elsewhere env then Inl LockNotAvailable
               else Inr (Some (pid, row)))"

definition update_stock :: "int \<Rightarrow> int \<Rightarrow> 'f world \<Rightarrow> 'f world" where
  "update_stock pid new_stock w =
     log_event (Execute UpdateStock)
       (w\<lparr>working := (working w)\<lparr>products :=
            (case products (working w) pid of
               None \<Rightarrow> products (working w)
             | Some row \<Rightarrow> (products (working w))(pid \<mapsto> row\<lparr>stock_quantity := new_stock\<rparr>))\<rparr>\<rparr>)"

definition insert_order :: "'f order_row \<Rightarrow> 'f world \<Rightarrow> 'f world" where
  "insert_order r w =
     log_event (Execute InsertOrder) (w\<lparr>working := (working w)\<lparr>orders := orders (working w) @ [r]\<rparr>\<rparr>)"

definition insert_transaction :: "'f transaction_row \<Rightarrow> 'f world \<Rightarrow> 'f world" where
  "insert_transaction r w =
     log_event (Execute InsertTransaction)
       (w\<lparr>working := (working w)\<lparr>transactions := transactions (working w) @ [r]\<rparr>\<rparr>)"

definition insert_audit :: "'f audit_row \<Rightarrow> 'f world \<Rightarrow> 'f world" where
  "insert_audit r w =
     log_event (Execute InsertAudit)
       (w\<lparr>working := (working w)\<lparr>audit_logs := audit_logs (working w) @ [r]\<rparr>\<rparr>)"

section \<open>The purchase handler\<close>

record purchase_request =
  product_id :: int
  quantity :: int
  shipping_address :: string

text \<open>\<open>PurchaseRequest.validate_quantity\<close>: the handler only runs on a validated request.\<close>

definition validate_quantity :: "int \<Rightarrow> string + int" where
  "validate_quantity v = (if v \<le> 0 then Inl ''Quantity must be positive'' else Inr v)"

text \<open>The JWT payload \<open>current_user\<close>.\<close>

record user =
  user_id :: int
  username :: string
  role :: string

record 'f purchase_response =
  message :: string
  resp_order_id :: int
  resp_transaction_id :: int
  resp_product_name :: string
  resp_quantity :: int
  resp_total_price :: 'f
  resp_commission_fee :: 'f
  resp_artisan_payout :: 'f
  resp_remaining_stock :: int
  resp_created_at :: string

text \<open>
  Lines 522-527: take a connection from the pool, open a cursor, switch autocommit off.
  A failure leaves the handler with the variables it had set so far.
\<close>

definition open_transaction :: "store_env \<Rightarrow> 'f world \<Rightarrow> exn \<times> 'f world + 'f world" where
  "open_transaction env w =
     (if fault env = Some AtGetConn then Inl (PoolError, w)
      else
        let w1 = getconn w in
        if fault env = Some AtCursor then Inl (DatabaseError, store_fails w1)
        else
          let w2 = log_event OpenCursor (w1\<lparr>cursor := True\<rparr>) in
          case set_autocommit env False w2 of
            Inl e \<Rightarrow> Inl (e, w2)
          | Inr w3 \<Rightarrow> Inr w3)"

text \<open>
  Lines 543-554: the lock query under the inner \<open>try\<close>. The inner
  \<open>except Exception as lock_error\<close> catches whatever the lock query raises, calls
  \<open>connection.rollback()\<close> and raises the 409; when the rollback raises, its exception
  leaves the handler instead. Otherwise \<open>product\<close> is the row fetched, or None.
\<close>

definition lock_product ::
  "store_env \<Rightarrow> purchase_request \<Rightarrow> 'f world \<Rightarrow>
   exn \<times> 'f world + (int \<times> 'f product) option \<times> 'f world" where
  "lock_product env req w =
     (case select_for_update_nowait env w (product_id req) of
        Inl lock_error \<Rightarrow>
          (let w1 = (if fault env = Some (AtExecute LockQuery) then store_fails w else w) in
           case connection_rollback env w1 of
             Inl e \<Rightarrow> Inl (e, w1)
           | Inr w2 \<Rightarrow>
               Inl (HTTPException HTTP_409_CONFLICT
                  ''Product is currently being purchased by another customer. Please try again.'',
                w2))
      | Inr product \<Rightarrow> Inr (product, log_event (Execute LockQuery) w))"

text \<open>
  Lines 565-582: the stock check on the row that was fetched; \<open>Some\<close> is the exception
  raised, after the rollback or by it.
\<close>

definition stock_check ::
  "store_env \<Rightarrow> purchase_request \<Rightarrow> 'f product \<Rightarrow> 'f world \<Rightarrow> (exn \<times> 'f world) option" where
  "stock_check env req row w =
     (if stock_quantity row < quantity req then
        (case connection_rollback env w of
           Inl e \<Rightarrow> Some (e, w)
         | Inr w1 \<Rightarrow>
             if stock_quantity row = 0 then
               Some (HTTPException HTTP_400_BAD_REQUEST ''SOLD OUT: This item is no longer available'', w1)
             else
               Some (HTTPException HTTP_400_BAD_REQUEST
                      (''Insufficient stock. Only '' @ str_int (stock_quantity row) @ '' items available''), w1))
      else None)"

text \<open>
  Lines 584-669: the writes, the commit and the response, computed from the row that was
  fetched: \<open>new_stock\<close> is the stock of that copy less the quantity. \<open>client\<close> is
  \<open>request.client\<close>, on which \<open>.host\<close> raises AttributeError when it is None.
\<close>

definition write_phase ::
  "'f float_ops \<Rightarrow> store_env \<Rightarrow> purchase_request \<Rightarrow> user \<Rightarrow> string option \<Rightarrow>
   int \<Rightarrow> 'f product \<Rightarrow> 'f world \<Rightarrow> (exn + 'f purchase_response) \<times> 'f world" where
  "write_phase ops env req usr client pid row w =
     (let total_price = py_mul_int ops (price row) (quantity req);
          new_stock = stock_quantity row - quantity req
      in
      if fault env = Some (AtExecute UpdateStock) then (Inl DatabaseError, store_fails w)
      else
        let w1 = update_stock pid new_stock w in
        if fault env = Some (AtExecute InsertOrder) then (Inl DatabaseError, store_fails w1)
        else
          let order_id = new_order_id env;
              created_at = new_created_at env;
              w2 = insert_order
                     \<lparr>ord_order_id = order_id, ord_buyer_id = user_id usr, ord_product_id = pid,
                      ord_quantity = quantity req, ord_total_price = total_price,
                      ord_shipping_address = shipping_address req, ord_created_at = created_at\<rparr> w1
          in
          case purchase_split ops total_price of
            Inl e \<Rightarrow> (Inl e, w2)
          | Inr (commission_fee, artisan_payout) \<Rightarrow>
              if fault env = Some (AtExecute InsertTransaction) then
                (Inl DatabaseError, store_fails w2)
              else
                let transaction_id = new_transaction_id env;
                    w3 = insert_transaction
                           \<lparr>txn_transaction_id = transaction_id, txn_order_id = order_id,
                            txn_artisan_id = artisan_id row, txn_buyer_id = user_id usr,
                            txn_product_id = pid, txn_amount = total_price,
                            txn_commission_fee = commission_fee,
                            txn_artisan_payout = artisan_payout\<rparr> w2;
                    audit_details =
                           \<lparr>det_product_name = product_name row, det_quantity = quantity req,
                            det_total_price = py_float ops total_price,
                            det_old_stock = stock_quantity row, det_new_stock = new_stock\<rparr>
                in
                (case client of
                  None \<Rightarrow> (Inl AttributeError, w3)
                | Some host \<Rightarrow>
                    if fault env = Some (AtExecute InsertAudit) then
                      (Inl DatabaseError, store_fails w3)
                    else
                      let w4 = insert_audit
                                 \<lparr>aud_user_id = user_id usr, aud_action_type = ''purchase'',
                                  aud_entity_type = Some ''order'', aud_entity_id = Some order_id,
                                  aud_details = Some (PurchaseDetails audit_details),
                                  aud_ip_address = Some host\<rparr> w3
                      in
                      if fault env = Some AtCommit then (Inl DatabaseError, store_fails w4)
                      else
                        (Inr \<lparr>message = ''Purchase successful'',
                              resp_order_id = order_id,
                              resp_transaction_id = transaction_id,
                              resp_product_name = product_name row,
                              resp_quantity = quantity req,
                              resp_total_price = py_float ops total_price,
                              resp_commission_fee = commission_fee,
                              resp_artisan_payout = artisan_payout,
                              resp_remaining_stock = new_stock,
                              resp_created_at = isoformat created_at\<rparr>,
                         commit w4)))"

text \<open>
  Lines 556-669: what the handler does once the lock query has returned \<open>product\<close>: the
  404 when there is no row, else the stock check and the writes on the row it holds.
\<close>

definition purchase_locked ::
  "'f float_ops \<Rightarrow> store_env \<Rightarrow> purchase_request \<Rightarrow> user \<Rightarrow> string option \<Rightarrow>
   (int \<times> 'f product) option \<Rightarrow> 'f world \<Rightarrow> (exn + 'f purchase_response) \<times> 'f world" where
  "purchase_locked ops env req usr client product w =
     (case product of
        None \<Rightarrow>
          (case connection_rollback env w of
             Inl e \<Rightarrow> (Inl e, w)
           | Inr w1 \<Rightarrow> (Inl (HTTPException HTTP_404_NOT_FOUND ''Product not found''), w1))
      | Some (pid, row) \<Rightarrow>
          (case stock_check env req row w of
             Some (e, w1) \<Rightarrow> (Inl e, w1)
           | None \<Rightarrow> write_phase ops env req usr client pid row w))"

text \<open>The body of the outer \<open>try\<close>.\<close>

definition purchase_try ::
  "'f float_ops \<Rightarrow> store_env \<Rightarrow> purchase_request \<Rightarrow> user \<Rightarrow> string option \<Rightarrow>
   'f world \<Rightarrow> (exn + 'f purchase_response) \<times> 'f world" where
  "purchase_try ops env req usr client w0 =
     (case open_transaction env w0 of
        Inl (e, w) \<Rightarrow> (Inl e, w)
      | Inr w \<Rightarrow>
          (case lock_product env req w of
             Inl (e, w1) \<Rightarrow> (Inl e, w1)
           | Inr (product, w1) \<Rightarrow> purchase_locked ops env req usr client product w1))"

text \<open>
  Lines 671-683: \<open>except HTTPException: raise\<close>, and \<open>except Exception\<close>, which calls
  \<open>connection.rollback()\<close> when a connection was obtained and raises the 500; when the
  rollback raises, its exception leaves the handler instead.
\<close>

definition handle_exception ::
  "store_env \<Rightarrow> exn + 'a \<Rightarrow> 'f world \<Rightarrow> (exn + 'a) \<times> 'f world" where
  "handle_exception env r w =
     (case r of
        Inr resp \<Rightarrow> (Inr resp, w)
      | Inl (HTTPException s d) \<Rightarrow> (Inl (HTTPException s d), w)
      | Inl e \<Rightarrow>
          (let failed = Inl (HTTPException HTTP_500_INTERNAL_SERVER_ERROR
                              ''Purchase failed. Please try again.'')
           in if connection w then
                (case connection_rollback env w of
                   Inl e' \<Rightarrow> (Inl e', w)
                 | Inr w1 \<Rightarrow> (failed, w1))
              else (failed, w)))"

text \<open>
  Lines 685-691, the \<open>finally\<close> block:
  \<^verbatim>\<open>
  if cursor:
      cursor.close()
  if connection:
      connection.autocommit = True
      db.connection_pool.putconn(connection)
  \<close>
  A call that raises ends the block: the calls after it are not made, and its exception
  is what the handler raises, whatever it was about to return or raise.
\<close>

definition finally_cleanup :: "store_env \<Rightarrow> 'f world \<Rightarrow> exn option \<times> 'f world" where
  "finally_cleanup env w =
     (case (if cursor w then cursor_close env w else Inr w) of
        Inl e \<Rightarrow> (Some e, w)
      | Inr w1 \<Rightarrow>
          if connection w1 then
            (case set_autocommit env True w1 of
               Inl e \<Rightarrow> (Some e, w1)
             | Inr w2 \<Rightarrow>
                 (case pool_putconn env w2 of
                    Inl e \<Rightarrow> (Some e, w2)
                  | Inr w3 \<Rightarrow> (None, w3)))
          else (None, w1))"

text \<open>
  The end of the handler, from the result of the \<open>try\<close> block: the \<open>except\<close> clauses,
  then the \<open>finally\<close> block.
\<close>

definition purchase_exit ::
  "store_env \<Rightarrow> exn + 'a \<Rightarrow> 'f world \<Rightarrow> (exn + 'a) \<times> 'f world" where
  "purchase_exit env r w =
     (let (r1, w1) = handle_exception env r w;
          (raised, w2) = finally_cleanup env w1
      in (case raised of None \<Rightarrow> r1 | Some e \<Rightarrow> Inl e, w2))"

definition purchase_with_lock ::
  "'f float_ops \<Rightarrow> store_env \<Rightarrow> purchase_request \<Rightarrow> user \<Rightarrow> string option \<Rightarrow>
   'f world \<Rightarrow> (exn + 'f purchase_response) \<times> 'f world" where
  "purchase_with_lock ops env req usr client w =
     (let (r, w1) = purchase_try ops env req usr client (w\<lparr>connection := False, cursor := False\<rparr>)
      in purchase_exit env r w1)"

section \<open>The query helpers of database.py\<close>

text \<open>
  \<open>DatabaseManager.get_cursor(commit)\<close> wrapped around \<open>get_connection\<close>:
  \<^verbatim>\<open>
  with self.get_connection() as connection:
      cursor = connection.cursor(cursor_factory=extras.RealDictCursor)
      try:
          yield cursor
          if commit:
              connection.commit()
      except Exception as e:
          connection.rollback()
          logger.error(f"Database error: {e}")
          raise
      finally:
          cursor.close()
  \<close>
  \<open>body\<close> is the block under the \<open>with\<close>: it runs the statements on the cursor and returns
  a value or raises.
\<close>

definition get_cursor ::
  "store_env \<Rightarrow> bool \<Rightarrow> ('f world \<Rightarrow> (exn + 'a) \<times> 'f world) \<Rightarrow> 'f world \<Rightarrow>
   (exn + 'a) \<times> 'f world" where
  "get_cursor env do_commit body w =
     (if fault env = Some AtGetConn then (Inl PoolError, w)
      else
        let w1 = getconn w in
        if fault env = Some AtCursor then (Inl DatabaseError, putconn w1)
        else
          let w2 = log_event OpenCursor (w1\<lparr>cursor := True\<rparr>);
              (r, w3) = body w2;
              (r', w4) =
                (case r of
                   Inr v \<Rightarrow>
                     if do_commit then
                       (if fault env = Some AtCommit then (Inl DatabaseError, rollback w3)
                        else (Inr v, commit w3))
                     else (Inr v, w3)
                 | Inl e \<Rightarrow> (Inl e, rollback w3))
          in (r', putconn (log_event CloseCursor w4)))"

text \<open>
  An SQL statement with its parameters is a function on the state the transaction sees: it
  raises, or gives what the cursor returns and changes that state.
\<close>

type_synonym ('f, 'a) statement = "'f database \<Rightarrow> exn + 'a \<times> 'f database"

definition cursor_execute :: "('f, 'a) statement \<Rightarrow> 'f world \<Rightarrow> (exn + 'a) \<times> 'f world" where
  "cursor_execute q w =
     (case q (working w) of
        Inl e \<Rightarrow> (Inl e, w)
      | Inr (v, db) \<Rightarrow> (Inr v, w\<lparr>working := db\<rparr>))"

definition execute_query ::
  "store_env \<Rightarrow> ('f, 'a) statement \<Rightarrow> 'f world \<Rightarrow> (exn + 'a) \<times> 'f world" where
  "execute_query env q = get_cursor env False (cursor_execute q)"

definition execute_update ::
  "store_env \<Rightarrow> ('f, 'a) statement \<Rightarrow> 'f world \<Rightarrow> (exn + 'a) \<times> 'f world" where
  "execute_update env q = get_cursor env True (cursor_execute q)"

definition execute_insert_returning ::
  "store_env \<Rightarrow> ('f, 'a) statement \<Rightarrow> 'f world \<Rightarrow> (exn + 'a) \<times> 'f world" where
  "execute_insert_returning env q = get_cursor env True (cursor_execute q)"

text \<open>
  \<open>create_product\<close>: \<^verbatim>\<open>INSERT INTO products (...) VALUES (...) RETURNING *\<close>.
  \<open>price_column\<close> is what the price column hands back for the float it was given
  (the float itself, or the Decimal of a NUMERIC column); the store generates the id, and
  refuses a key it already has.
\<close>

definition insert_product :: "int \<Rightarrow> 'f product \<Rightarrow> ('f, (int \<times> 'f product) option) statement" where
  "insert_product pid row db =
     (case products db pid of
        Some other \<Rightarrow> Inl DatabaseError
      | None \<Rightarrow> Inr (Some (pid, row), db\<lparr>products := (products db)(pid \<mapsto> row)\<rparr>))"

definition create_product ::
  "('f \<Rightarrow> 'f pynum) \<Rightarrow> store_env \<Rightarrow> int \<Rightarrow> string \<Rightarrow> string \<Rightarrow> 'f \<Rightarrow> int \<Rightarrow> string \<Rightarrow>
   string option \<Rightarrow> 'f world \<Rightarrow> (exn + (int \<times> 'f product) option) \<times> 'f world" where
  "create_product price_column env artisan name descr p stock cat img =
     execute_insert_returning env
       (insert_product (new_product_id env)
          \<lparr>artisan_id = artisan, product_name = name, description = descr,
           price = price_column p, stock_quantity = stock, category = cat, image_url = img\<rparr>)"

text \<open>\<open>update_product_stock\<close>: the number of rows the UPDATE touched.\<close>

definition set_stock :: "int \<Rightarrow> int \<Rightarrow> ('f, nat) statement" where
  "set_stock pid new_quantity db =
     (case products db pid of
        None \<Rightarrow> Inr (0, db)
      | Some row \<Rightarrow>
          Inr (1, db\<lparr>products := (products db)(pid \<mapsto> row\<lparr>stock_quantity := new_quantity\<rparr>)\<rparr>))"

definition update_product_stock ::
  "store_env \<Rightarrow> int \<Rightarrow> int \<Rightarrow> 'f world \<Rightarrow> (exn + nat) \<times> 'f world" where
  "update_product_stock env pid new_quantity = execute_update env (set_stock pid new_quantity)"

text \<open>
  \<open>create_transaction\<close> (lines 442-456 of database.py) computes the split itself:
  \<^verbatim>\<open>
  commission_rate = 0.05  # 5% platform commission
  commission_fee = round(amount * commission_rate, 2)
  artisan_payout = round(amount - commission_fee, 2)
  \<close>
\<close>

definition create_transaction_rate :: "'f float_ops \<Rightarrow> 'f" where
  "create_transaction_rate ops = float_lit ops 5 (- 2)"

definition create_transaction_split :: "'f float_ops \<Rightarrow> 'f pynum \<Rightarrow> exn + 'f \<times> 'f" where
  "create_transaction_split ops amount =
     (case amount of
        PyFloat a \<Rightarrow>
          (let commission_fee = fround2 ops (fmul ops a (create_transaction_rate ops));
               artisan_payout = fround2 ops (fsub ops a commission_fee)
           in Inr (commission_fee, artisan_payout))
      | PyDecimal c e \<Rightarrow> Inl TypeError)"

definition insert_transaction_row ::
  "'f transaction_row \<Rightarrow> ('f, 'f transaction_row option) statement" where
  "insert_transaction_row r db = Inr (Some r, db\<lparr>transactions := transactions db @ [r]\<rparr>)"

definition create_transaction ::
  "'f float_ops \<Rightarrow> store_env \<Rightarrow> int \<Rightarrow> int \<Rightarrow> int \<Rightarrow> int \<Rightarrow> 'f pynum \<Rightarrow> 'f world \<Rightarrow>
   (exn + 'f transaction_row option) \<times> 'f world" where
  "create_transaction ops env order_id artisan buyer pid amount w =
     (case create_transaction_split ops amount of
        Inl e \<Rightarrow> (Inl e, w)
      | Inr (commission_fee, artisan_payout) \<Rightarrow>
          execute_insert_returning env
            (insert_transaction_row
               \<lparr>txn_transaction_id = new_transaction_id env, txn_order_id = order_id,
                txn_artisan_id = artisan, txn_buyer_id = buyer, txn_product_id = pid,
                txn_amount = amount, txn_commission_fee = commission_fee,
                txn_artisan_payout = artisan_payout\<rparr>) w)"

text \<open>\<open>create_audit_log\<close>.\<close>

definition insert_audit_row :: "'f audit_row \<Rightarrow> ('f, 'f audit_row option) statement" where
  "insert_audit_row r db = Inr (Some r, db\<lparr>audit_logs := audit_logs db @ [r]\<rparr>)"

definition create_audit_log ::
  "store_env \<Rightarrow> int \<Rightarrow> string \<Rightarrow> string option \<Rightarrow> int option \<Rightarrow> 'f audit_json option \<Rightarrow>
   string option \<Rightarrow> 'f world \<Rightarrow> (exn + 'f audit_row option) \<times> 'f world" where
  "create_audit_log env uid action entity_type entity_id details ip_address =
     execute_insert_returning env
       (insert_audit_row
          \<lparr>aud_user_id = uid, aud_action_type = action, aud_entity_type = entity_type,
           aud_entity_id = entity_id, aud_details = details, aud_ip_address = ip_address\<rparr>)"

section \<open>The endpoints\<close>

text \<open>\<open>sep.join(xs)\<close>.\<close>

fun join :: "string \<Rightarrow> string list \<Rightarrow> string" where
  "join sep [] = []"
| "join sep [x] = x"
| "join sep (x # y # ys) = x @ sep @ join sep (y # ys)"

text \<open>\<open>require_role\<close>: the 403 of a token whose role is not allowed.\<close>

definition require_role :: "string list \<Rightarrow> user \<Rightarrow> exn + user" where
  "require_role required_roles usr =
     (if role usr \<notin> set required_roles then
        Inl (HTTPException 403
          (''Access denied. Required role: '' @ join '', '' required_roles))
      else Inr usr)"

text \<open>\<open>ProductCreate\<close> and its validators, in the order of the fields.\<close>

record 'f product_create =
  pc_product_name :: string
  pc_description :: string
  pc_price :: 'f
  pc_stock_quantity :: int
  pc_category :: string
  pc_image_url :: "string option"

definition validate_price :: "'f float_ops \<Rightarrow> 'f \<Rightarrow> string + 'f" where
  "validate_price ops v = (if fle_zero ops v then Inl ''Price must be positive'' else Inr v)"

definition validate_stock :: "int \<Rightarrow> string + int" where
  "validate_stock v = (if v < 0 then Inl ''Stock quantity cannot be negative'' else Inr v)"

definition product_create_errors :: "'f float_ops \<Rightarrow> 'f product_create \<Rightarrow> string list" where
  "product_create_errors ops d =
     (case validate_price ops (pc_price d) of Inl m \<Rightarrow> [m] | Inr v \<Rightarrow> []) @
     (case validate_stock (pc_stock_quantity d) of Inl m \<Rightarrow> [m] | Inr v \<Rightarrow> [])"

text \<open>
  \<open>POST /api/products\<close>: the role check, the validation of the body, then
  \<open>create_new_product\<close>, which calls \<open>create_product\<close> and \<open>create_audit_log\<close>, each in a
  transaction of its own (\<open>env_product\<close> and \<open>env_audit\<close> are the store's answers to them).
\<close>

definition create_new_product ::
  "('f \<Rightarrow> 'f pynum) \<Rightarrow> store_env \<Rightarrow> store_env \<Rightarrow> 'f product_create \<Rightarrow> user \<Rightarrow> 'f world \<Rightarrow>
   (exn + string \<times> int \<times> 'f product) \<times> 'f world" where
  "create_new_product price_column env_product env_audit d usr w =
     (let failed = Inl (HTTPException HTTP_500_INTERNAL_SERVER_ERROR ''Failed to create product'');
          (r, w1) = create_product price_column env_product (user_id usr) (pc_product_name d)
                      (pc_description d) (pc_price d) (pc_stock_quantity d) (pc_category d)
                      (pc_image_url d) w
      in case r of
           Inl e \<Rightarrow> (failed, w1)
         | Inr None \<Rightarrow> (failed, w1)
         | Inr (Some (pid, row)) \<Rightarrow>
             (let (r2, w2) = create_audit_log env_audit (user_id usr) ''product_created''
                               (Some ''product'') (Some pid)
                               (Some (ProductCreatedDetails (product_name row))) None w1
              in case r2 of
                   Inl e \<Rightarrow> (failed, w2)
                 | Inr a \<Rightarrow> (Inr (''Product created successfully'', pid, row), w2)))"

definition post_products ::
  "'f float_ops \<Rightarrow> ('f \<Rightarrow> 'f pynum) \<Rightarrow> store_env \<Rightarrow> store_env \<Rightarrow> 'f product_create \<Rightarrow> user \<Rightarrow>
   'f world \<Rightarrow> (exn + string \<times> int \<times> 'f product) \<times> 'f world" where
  "post_products ops price_column env_product env_audit d usr w =
     (case require_role [''artisan''] usr of
        Inl e \<Rightarrow> (Inl e, w)
      | Inr current_user \<Rightarrow>
          (case product_create_errors ops d of
             [] \<Rightarrow> create_new_product price_column env_product env_audit d current_user w
           | errs \<Rightarrow> (Inl (RequestValidationError errs), w)))"

text \<open>
  \<open>POST /api/purchase/lock\<close>: the role check and \<open>PurchaseRequest.validate_quantity\<close> come
  before the handler.
\<close>

definition post_purchase_lock ::
  "'f float_ops \<Rightarrow> store_env \<Rightarrow> purchase_request \<Rightarrow> user \<Rightarrow> string option \<Rightarrow> 'f world \<Rightarrow>
   (exn + 'f purchase_response) \<times> 'f world" where
  "post_purchase_lock ops env req usr client w =
     (case require_role [''buyer''] usr of
        Inl e \<Rightarrow> (Inl e, w)
      | Inr current_user \<Rightarrow>
          (case validate_quantity (quantity req) of
             Inl m \<Rightarrow> (Inl (RequestValidationError [m]), w)
           | Inr v \<Rightarrow> purchase_with_lock ops env req current_user client w))"

section \<open>Sequences of requests\<close>

text \<open>
  The two endpoints that write product rows, each request with the answers the store gives
  to its calls, served one after the other.
\<close>

datatype 'f request =
    PostProducts "'f product_create" user store_env store_env
  | PostPurchaseLock purchase_request user "string option" store_env

fun handle_request ::
  "'f float_ops \<Rightarrow> ('f \<Rightarrow> 'f pynum) \<Rightarrow> 'f request \<Rightarrow> 'f world \<Rightarrow> 'f world" where
  "handle_request ops price_column (PostProducts d usr env_product env_audit) w =
     snd (post_products ops price_column env_product env_audit d usr w)"
| "handle_request ops price_column (PostPurchaseLock req usr client env) w =
     snd (post_purchase_lock ops env req usr client w)"

fun serve ::
  "'f float_ops \<Rightarrow> ('f \<Rightarrow> 'f pynum) \<Rightarrow> 'f request list \<Rightarrow> 'f world \<Rightarrow> 'f world" where
  "serve ops price_column [] w = w"
| "serve ops price_column (r # rs) w = serve ops price_column rs (handle_request ops price_column r w)"

text \<open>The invariant of the product table: no stock quantity is negative.\<close>

definition stock_nonneg :: "'f database \<Rightarrow> bool" where
  "stock_nonneg db \<longleftrightarrow> (\<forall>pid row. products db pid = Some row \<longrightarrow> 0 \<le> stock_quantity row)"

section \<open>Concurrent purchase attempts\<close>

text \<open>
  Several calls of the handler run at once, each on a connection of its own. What one call
  can see of another is the row lock and the committed store, so a call is two steps: up to
  the lock query (\<open>FOR UPDATE NOWAIT\<close>), and the rest of the transaction up to its commit
  or rollback, which releases the lock. A schedule names, step by step, the call that moves.

  A call that is \<open>Ready\<close> has not started; one that is \<open>Locked\<close> holds the row lock of
  its product, together with its local variables: \<open>product\<close>, the row its lock query
  fetched, and the state of its connection and cursor; one that is \<open>Done\<close> has answered.
  The rows locked by the other calls are read off their states.
\<close>

record attempt =
  att_request :: purchase_request
  att_user :: user
  att_client :: "string option"
  att_env :: store_env

datatype 'f thread =
    Ready attempt
  | Locked attempt "int \<times> 'f product" "'f world"
  | Done "exn + 'f purchase_response"

record 'f system =
  store :: "'f database"
  threads :: "'f thread list"

fun held :: "'f thread \<Rightarrow> int list" where
  "held (Locked a product w) = [fst product]"
| "held t = []"

definition locked_by_others :: "'f thread list \<Rightarrow> nat \<Rightarrow> int set" where
  "locked_by_others ts i =
     set (concat (map (\<lambda>(j, t). if j = i then [] else held t) (enumerate 0 ts)))"

definition fresh_world :: "'f database \<Rightarrow> 'f world" where
  "fresh_world db =
     \<lparr>committed = db, working = db, pool_in_use = 0, connection = False, cursor = False,
      broken = False, events = []\<rparr>"

text \<open>
  The statements of a call that moves act on the store as it is committed at that moment
  (READ COMMITTED); what the call computes with is the row it fetched.
\<close>

definition at_store :: "'f database \<Rightarrow> 'f world \<Rightarrow> 'f world" where
  "at_store db w = w\<lparr>committed := db, working := db\<rparr>"

text \<open>
  Call \<open>i\<close> leaves its \<open>try\<close> block with \<open>r\<close>: it runs its handlers and its \<open>finally\<close>
  block and answers; the store is what its transaction has committed.
\<close>

definition answer ::
  "store_env \<Rightarrow> nat \<Rightarrow> (exn + 'f purchase_response) \<times> 'f world \<Rightarrow> 'f system \<Rightarrow> 'f system" where
  "answer env i rw s =
     (let (r, w) = purchase_exit env (fst rw) (snd rw)
      in s\<lparr>store := committed w, threads := (threads s)[i := Done r]\<rparr>)"

text \<open>
  One step of call \<open>i\<close>. A ready call opens its transaction and runs the lock query: when
  the query returns the row, the call holds the lock and keeps the row for its second step;
  otherwise (a failure, a row locked elsewhere, no row) it runs to its answer at once. A
  call that holds the lock checks the stock of the row it fetched, writes, commits or rolls
  back, and answers; this releases the lock.
\<close>

definition thread_step :: "'f float_ops \<Rightarrow> nat \<Rightarrow> 'f system \<Rightarrow> 'f system" where
  "thread_step ops i s =
     (if i < length (threads s) then
        (case threads s ! i of
           Done r \<Rightarrow> s
         | Ready a \<Rightarrow>
             (let env = (att_env a)\<lparr>locked_elsewhere := locked_by_others (threads s) i\<rparr> in
              case open_transaction env (fresh_world (store s)) of
                Inl (e, w) \<Rightarrow> answer env i (Inl e, w) s
              | Inr w \<Rightarrow>
                  (case lock_product env (att_request a) w of
                     Inl (e, w1) \<Rightarrow> answer env i (Inl e, w1) s
                   | Inr (None, w1) \<Rightarrow>
                       answer env i
                         (purchase_locked ops env (att_request a) (att_user a) (att_client a)
                            None w1) s
                   | Inr (Some product, w1) \<Rightarrow>
                       s\<lparr>threads := (threads s)[i := Locked a product w1]\<rparr>))
         | Locked a product w \<Rightarrow>
             (let env = (att_env a)\<lparr>locked_elsewhere := locked_by_others (threads s) i\<rparr> in
              answer env i
                (purchase_locked ops env (att_request a) (att_user a) (att_client a)
                   (Some product) (at_store (store s) w)) s))
      else s)"

fun run :: "'f float_ops \<Rightarrow> nat list \<Rightarrow> 'f system \<Rightarrow> 'f system" where
  "run ops [] s = s"
| "run ops (i # sched) s = run ops sched (thread_step ops i s)"

definition initial_system :: "'f database \<Rightarrow> attempt list \<Rightarrow> 'f system" where
  "initial_system db attempts = \<lparr>store = db, threads = map Ready attempts\<rparr>"

fun is_done :: "'f thread \<Rightarrow> bool" where
  "is_done (Done r) = True"
| "is_done t = False"

fun is_success :: "'f thread \<Rightarrow> bool" where
  "is_success (Done (Inr resp)) = True"
| "is_success t = False"

fun is_locked :: "'f thread \<Rightarrow> bool" where
  "is_locked (Locked a product w) = True"
| "is_locked t = False"

definition all_done :: "'f system \<Rightarrow> bool" where
  "all_done s = list_all is_done (threads s)"

definition successes :: "'f system \<Rightarrow> nat" where
  "successes s = length (filter is_success (threads s))"

definition stock_of :: "'f system \<Rightarrow> int \<Rightarrow> int option" where
  "stock_of s pid = map_option stock_quantity (products (store s) pid)"

text \<open>The attempts of one race: all for the same product and the same quantity.\<close>

definition attempt_for :: "int \<Rightarrow> int \<Rightarrow> attempt \<Rightarrow> bool" where
  "attempt_for pid q a \<longleftrightarrow> product_id (att_request a) = pid \<and> quantity (att_request a) = q"

text \<open>
  The invariant of a race for the product \<open>pid\<close> whose row was \<open>row\<close> at the start: the
  stock of the row is the initial stock less the units sold, it is not negative, at most
  one call holds the lock, and the row a lock holder fetched is the row as it is now.
\<close>

fun thread_for :: "int \<Rightarrow> int \<Rightarrow> 'f product \<Rightarrow> 'f thread \<Rightarrow> bool" where
  "thread_for pid q current (Ready a) = attempt_for pid q a"
| "thread_for pid q current (Locked a product w) =
     (attempt_for pid q a \<and> product = (pid, current) \<and> \<not> broken w)"
| "thread_for pid q current (Done r) = True"

definition race_inv :: "int \<Rightarrow> int \<Rightarrow> 'f product \<Rightarrow> 'f system \<Rightarrow> bool" where
  "race_inv pid q row s \<longleftrightarrow>
     (\<forall>i < length (threads s).
        thread_for pid q (row\<lparr>stock_quantity := stock_quantity row - q * int (successes s)\<rparr>)
          (threads s ! i)) \<and>
     products (store s) pid =
       Some (row\<lparr>stock_quantity := stock_quantity row - q * int (successes s)\<rparr>) \<and>
     0 \<le> stock_quantity row - q * int (successes s) \<and>
     (\<forall>i < length (threads s). \<forall>j < length (threads s).
        is_locked (threads s ! i) \<and> is_locked (threads s ! j) \<longrightarrow> i = j)"

text \<open>The answers a call can give when the store does not fail.\<close>

definition lock_contention :: exn where
  "lock_contention =
     HTTPException HTTP_409_CONFLICT
       ''Product is currently being purchased by another customer. Please try again.''"

definition sold_out :: exn where
  "sold_out = HTTPException HTTP_400_BAD_REQUEST ''SOLD OUT: This item is no longer available''"

definition insufficient_stock :: "int \<Rightarrow> exn" where
  "insufficient_stock available =
     HTTPException HTTP_400_BAD_REQUEST
       (''Insufficient stock. Only '' @ str_int available @ '' items available'')"

text \<open>
  An attempt of the race with \<open>request.client\<close> present, against a store that does not
  fail; and what such a race can answer to one attempt.
\<close>

definition attempt_ok :: "int \<Rightarrow> int \<Rightarrow> attempt \<Rightarrow> bool" where
  "attempt_ok pid q a \<longleftrightarrow>
     product_id (att_request a) = pid \<and> quantity (att_request a) = q \<and>
     fault (att_env a) = None \<and> att_client a \<noteq> None"

definition outcome_ok :: "int \<Rightarrow> exn + 'f purchase_response \<Rightarrow> bool" where
  "outcome_ok q r \<longleftrightarrow>
     (\<exists>resp. r = Inr resp) \<or> r = Inl lock_contention \<or> r = Inl sold_out \<or>
     (\<exists>k. 0 < k \<and> k < q \<and> r = Inl (insufficient_stock k))"

fun thread_ok :: "int \<Rightarrow> int \<Rightarrow> 'f thread \<Rightarrow> bool" where
  "thread_ok pid q (Ready a) = attempt_ok pid q a"
| "thread_ok pid q (Locked a product w) = attempt_ok pid q a"
| "thread_ok pid q (Done r) = outcome_ok q r"

text \<open>
  What holds in addition when the price is a float, the store does not fail and every
  request has its client: every answer is one of these, and as long as nothing was sold
  although the stock suffices, every answer so far is a lock conflict with a call that
  still holds the lock.
\<close>

definition progress_inv :: "int \<Rightarrow> int \<Rightarrow> 'f product \<Rightarrow> 'f system \<Rightarrow> bool" where
  "progress_inv pid q row s \<longleftrightarrow>
     (\<forall>i < length (threads s). thread_ok pid q (threads s ! i)) \<and>
     (successes s = 0 \<and> q \<le> stock_quantity row \<longrightarrow>
        (\<forall>i < length (threads s). is_done (threads s ! i) \<longrightarrow>
           threads s ! i = Done (Inl lock_contention)) \<and>
        ((\<exists>i < length (threads s). is_done (threads s ! i)) \<longrightarrow>
           (\<exists>i < length (threads s). is_locked (threads s ! i))))"

section \<open>Sample inputs\<close>

text \<open>
  An instance of the float operations that computes exactly on rationals and rounds half to
  even. It agrees with binary64 wherever every intermediate value is representable; it is
  used to run the model on concrete inputs.
\<close>

definition round_half_even :: "rat \<Rightarrow> int" where
  "round_half_even x =
     (let f = \<lfloor>x\<rfloor>; d = x - of_int f
      in if d < 1 / 2 then f else if 1 / 2 < d then f + 1 else if even f then f else f + 1)"

definition exact_ops :: "rat float_ops" where
  "exact_ops =
     \<lparr>fmul = (\<lambda>a b. a * b), fsub = (\<lambda>a b. a - b),
      fround2 = (\<lambda>x. of_int (round_half_even (x * 100)) / 100),
      float_of_int = of_int,
      float_lit = (\<lambda>m e. if 0 \<le> e then of_int m * 10 ^ nat e else of_int m / 10 ^ nat (- e)),
      fle_zero = (\<lambda>x. x \<le> 0)\<rparr>"

definition sample_time :: datetime where
  "sample_time =
     \<lparr>year = 2024, month = 1, day = 5, hour = 3, minute = 4, second = 5, microsecond = 0,
      utcoffset = Some 360\<rparr>"

text \<open>Product 7 has one unit at a float price of 100.00, product 8 one unit at Decimal('100.00').\<close>

definition sample_vase :: "rat product" where
  "sample_vase =
     \<lparr>artisan_id = 2, product_name = ''Vase'', description = ''Clay vase'', price = PyFloat 100,
      stock_quantity = 1, category = ''Pottery'', image_url = None\<rparr>"

definition sample_bowl :: "rat product" where
  "sample_bowl =
     \<lparr>artisan_id = 2, product_name = ''Bowl'', description = ''Clay bowl'',
      price = PyDecimal 10000 (- 2), stock_quantity = 1, category = ''Pottery'', image_url = None\<rparr>"

definition sample_db :: "rat database" where
  "sample_db =
     \<lparr>products = [7 \<mapsto> sample_vase, 8 \<mapsto> sample_bowl],
      orders = [], transactions = [], audit_logs = []\<rparr>"

definition sample_world :: "rat world" where
  "sample_world =
     \<lparr>committed = sample_db, working = sample_db, pool_in_use = 0, connection = False,
      cursor = False, broken = False, events = []\<rparr>"

definition sample_env :: store_env where
  "sample_env =
     \<lparr>fault = None, raises_after_fault = {}, locked_elsewhere = {}, new_product_id = 9,
      new_order_id = 11,
      new_created_at = sample_time,
      new_transaction_id = 21\<rparr>"

definition sample_request :: purchase_request where
  "sample_request = \<lparr>product_id = 7, quantity = 1, shipping_address = ''Dhaka''\<rparr>"

definition sample_user :: user where
  "sample_user = \<lparr>user_id = 3, username = ''buyer1'', role = ''buyer''\<rparr>"

definition sample_artisan :: user where
  "sample_artisan = \<lparr>user_id = 2, username = ''artisan1'', role = ''artisan''\<rparr>"

definition sample_product_create :: "rat product_create" where
  "sample_product_create =
     \<lparr>pc_product_name = ''Race Condition Test Item'', pc_description = ''One item in stock'',
      pc_price = 100, pc_stock_quantity = 1, pc_category = ''Test'', pc_image_url = None\<rparr>"

text \<open>A product is created, then bought, then asked for once more.\<close>

definition sample_requests :: "rat request list" where
  "sample_requests =
     [PostProducts sample_product_create sample_artisan sample_env sample_env,
      PostPurchaseLock (sample_request\<lparr>product_id := 9\<rparr>) sample_user (Some ''127.0.0.1'')
        sample_env,
      PostPurchaseLock (sample_request\<lparr>product_id := 9\<rparr>) sample_user (Some ''127.0.0.1'')
        (sample_env\<lparr>new_order_id := 12, new_transaction_id := 22\<rparr>)]"

text \<open>Two buyers ask for one unit of product 7 at the same time.\<close>

definition sample_attempts :: "attempt list" where
  "sample_attempts =
     [\<lparr>att_request = sample_request, att_user = sample_user, att_client = Some ''127.0.0.1'',
       att_env = sample_env\<rparr>,
      \<lparr>att_request = sample_request, att_user = sample_user, att_client = Some ''127.0.0.2'',
       att_env = sample_env\<lparr>new_order_id := 12, new_transaction_id := 22\<rparr>\<rparr>]"

definition sample_db_two_units :: "rat database" where
  "sample_db_two_units =
     sample_db\<lparr>products := (products sample_db)(7 \<mapsto> sample_vase\<lparr>stock_quantity := 2\<rparr>)\<rparr>"

text \<open>
  The connection is lost while the lock query of a purchase runs: the query raises, and
  on the connection, which psycopg2 has marked closed, \<open>rollback()\<close> and the setter of
  \<open>autocommit\<close> raise as well.
\<close>

definition lost_connection_env :: store_env where
  "lost_connection_env =
     sample_env\<lparr>fault := Some (AtExecute LockQuery),
       raises_after_fault := {CallRollback, CallSetAutocommit}\<rparr>"

section \<open>Atomicity of the purchase\<close>

lemmas world_defs = rollback_def commit_def getconn_def putconn_def log_event_def
  update_stock_def insert_order_def insert_transaction_def insert_audit_def store_fails_def

lemmas cleanup_defs = cleanup_raises_def connection_rollback_def cursor_close_def
  set_autocommit_def pool_putconn_def

lemma write_phase_failure_committed:
  "write_phase ops env req usr client pid row w = (Inl e, w') \<Longrightarrow> committed w' = committed w"
  by (auto simp: write_phase_def world_defs Let_def
      split: if_splits sum.splits option.splits prod.splits)

lemma connection_rollback_committed:
  "connection_rollback env w = Inr w' \<Longrightarrow> committed w' = committed w"
  by (auto simp: cleanup_defs world_defs split: if_splits)

lemma open_transaction_failure:
  "open_transaction env w = Inl (e, w1) \<Longrightarrow> committed w1 = committed w"
  by (auto simp: open_transaction_def cleanup_defs world_defs Let_def split: if_splits)

lemma open_transaction_view:
  "open_transaction env w = Inr w1 \<Longrightarrow>
     committed w1 = committed w \<and> working w1 = committed w \<and> \<not> broken w1 \<and>
     connection w1 \<and> cursor w1"
  by (auto simp: open_transaction_def cleanup_defs world_defs Let_def split: if_splits)

lemma lock_product_failure:
  "lock_product env req w = Inl (e, w1) \<Longrightarrow> committed w1 = committed w"
  by (auto simp: lock_product_def cleanup_defs world_defs Let_def split: if_splits sum.splits)

lemma lock_product_view:
  "lock_product env req w = Inr (product, w1) \<Longrightarrow>
     w1 = log_event (Execute LockQuery) w \<and>
     select_for_update_nowait env w (product_id req) = Inr product"
  by (auto simp: lock_product_def Let_def split: sum.splits)

lemma stock_check_committed:
  "stock_check env req row w = Some (e, w1) \<Longrightarrow> committed w1 = committed w"
  by (auto simp: stock_check_def cleanup_defs world_defs split: if_splits)

lemma purchase_locked_failure_committed:
  "purchase_locked ops env req usr client product w = (Inl e, w') \<Longrightarrow>
     committed w' = committed w"
  by (auto simp: purchase_locked_def cleanup_defs world_defs
      dest: write_phase_failure_committed stock_check_committed
      split: option.splits sum.splits prod.splits if_splits)

lemma purchase_try_failure_committed:
  assumes "purchase_try ops env req usr client w = (Inl e, w')"
  shows "committed w' = committed w"
proof (cases "open_transaction env w")
  case (Inl a)
  then show ?thesis
    using assms open_transaction_failure [of env w "fst a" "snd a"]
    by (cases a) (simp add: purchase_try_def)
next
  case (Inr w1)
  note view = open_transaction_view [OF Inr]
  show ?thesis
  proof (cases "lock_product env req w1")
    case (Inl a)
    then show ?thesis
      using assms Inr view lock_product_failure [of env req w1 "fst a" "snd a"]
      by (cases a) (simp add: purchase_try_def)
  next
    case found: (Inr found)
    obtain product w2 where f: "found = (product, w2)"
      by (cases found)
    from lock_product_view [of env req w1 product w2] found f
    have "committed w2 = committed w1"
      by (simp add: log_event_def)
    moreover have "purchase_locked ops env req usr client product w2 = (Inl e, w')"
      using assms Inr found f by (simp add: purchase_try_def)
    ultimately show ?thesis
      using view purchase_locked_failure_committed [of ops env req usr client product w2 e w']
      by simp
  qed
qed

lemma write_phase_success_not_broken:
  "write_phase ops env req usr client pid row w = (Inr resp, w') \<Longrightarrow> broken w' = broken w"
  by (auto simp: write_phase_def world_defs Let_def
      split: if_splits sum.splits option.splits prod.splits)

lemma purchase_locked_success_not_broken:
  "purchase_locked ops env req usr client product w = (Inr resp, w') \<Longrightarrow>
     broken w' = broken w"
  by (auto simp: purchase_locked_def
      dest: write_phase_success_not_broken
      split: option.splits sum.splits prod.splits)

lemma purchase_try_success_not_broken:
  assumes "purchase_try ops env req usr client w = (Inr resp, w')"
  shows "\<not> broken w'"
proof (cases "open_transaction env w")
  case (Inl a)
  then show ?thesis
    using assms by (cases a) (simp add: purchase_try_def)
next
  case (Inr w1)
  note view = open_transaction_view [OF Inr]
  show ?thesis
  proof (cases "lock_product env req w1")
    case (Inl a)
    then show ?thesis
      using assms Inr by (cases a) (simp add: purchase_try_def)
  next
    case found: (Inr found)
    obtain product w2 where f: "found = (product, w2)"
      by (cases found)
    from lock_product_view [of env req w1 product w2] found f
    have "broken w2 = broken w1"
      by (simp add: log_event_def)
    moreover have "purchase_locked ops env req usr client product w2 = (Inr resp, w')"
      using assms Inr found f by (simp add: purchase_try_def)
    ultimately show ?thesis
      using view purchase_locked_success_not_broken [of ops env req usr client product w2 resp w']
      by simp
  qed
qed

lemma fault_point_cases:
  "a = AtGetConn \<or> a = AtCursor \<or> a = AtExecute LockQuery \<or> a = AtExecute UpdateStock \<or>
   a = AtExecute InsertOrder \<or> a = AtExecute InsertTransaction \<or> a = AtExecute InsertAudit \<or>
   a = AtCommit"
proof (cases a)
  case (AtExecute s)
  then show ?thesis by (cases s) simp_all
qed simp_all

lemma purchase_try_fault_fails:
  assumes "fault env = Some a"
  shows "isl (fst (purchase_try ops env req usr client w))"
  using assms fault_point_cases [of a]
  by (auto simp: purchase_try_def open_transaction_def lock_product_def purchase_locked_def
        stock_check_def write_phase_def select_for_update_nowait_def cleanup_defs Let_def
      split: sum.splits option.splits prod.splits if_splits)

lemma handle_exception_isl: "isl (fst (handle_exception env r w)) = isl r"
  by (auto simp: handle_exception_def Let_def split: sum.splits exn.splits)

lemma handle_exception_committed:
  "committed (snd (handle_exception env r w)) = committed w"
  by (auto simp: handle_exception_def cleanup_defs world_defs Let_def
      split: sum.splits exn.splits)

lemma handle_exception_success:
  "handle_exception env (Inr resp) w = (Inr resp, w)"
  by (simp add: handle_exception_def)

lemma finally_cleanup_committed:
  "committed (snd (finally_cleanup env w)) = committed w"
  by (auto simp: finally_cleanup_def cleanup_defs world_defs split: sum.splits)

lemma finally_cleanup_not_broken:
  "\<not> broken w \<Longrightarrow> fst (finally_cleanup env w) = None"
  by (auto simp: finally_cleanup_def cleanup_defs world_defs split: sum.splits)

lemma purchase_exit_committed:
  "committed (snd (purchase_exit env r w)) = committed w"
  using handle_exception_committed [of env r w]
    finally_cleanup_committed [of env "snd (handle_exception env r w)"]
  by (auto simp: purchase_exit_def split: prod.splits)

lemma purchase_exit_isl:
  "isl r \<Longrightarrow> isl (fst (purchase_exit env r w))"
  using handle_exception_isl [of env r w]
  by (auto simp: purchase_exit_def split: prod.splits option.splits)

lemma purchase_exit_success:
  "\<not> broken w \<Longrightarrow> fst (purchase_exit env (Inr resp) w) = Inr resp"
  using finally_cleanup_not_broken [of w env]
  by (auto simp: purchase_exit_def handle_exception_success split: prod.splits)

text \<open>
  C3. A purchase call that does not return Success leaves the durable state as it was: the
  products (so every stock quantity), the orders, the payment splits and the audit entries.
  A store failure injected at any call of the handler, in particular at any statement
  between the stock update and the commit, or at the commit, is such a call.
\<close>

theorem purchase_failure_leaves_store_unchanged:
  "(isl (fst (purchase_with_lock ops env req usr client w)) \<longrightarrow>
      committed (snd (purchase_with_lock ops env req usr client w)) = committed w) \<and>
   (fault env \<noteq> None \<longrightarrow> isl (fst (purchase_with_lock ops env req usr client w)))"
proof (cases "purchase_try ops env req usr client (w\<lparr>connection := False, cursor := False\<rparr>)")
  case (Pair r w1)
  have call: "purchase_with_lock ops env req usr client w = purchase_exit env r w1"
    using Pair by (simp add: purchase_with_lock_def)
  have unchanged: "committed w1 = committed w" if "isl r"
    using that Pair purchase_try_failure_committed [of ops env req usr client _ _ w1]
    by (cases r) auto
  have succeeded: "\<not> isl (fst (purchase_exit env r w1))" if "\<not> isl r"
  proof -
    from that obtain resp where r: "r = Inr resp"
      by (cases r) auto
    from purchase_try_success_not_broken [of ops env req usr client _ resp w1] Pair r
    have "\<not> broken w1"
      by simp
    from purchase_exit_success [OF this, of env resp] r show ?thesis
      by simp
  qed
  have "isl r" if "fault env \<noteq> None"
  proof -
    from that obtain a where "fault env = Some a" by auto
    from purchase_try_fault_fails [OF this, of ops req usr client
        "w\<lparr>connection := False, cursor := False\<rparr>"] Pair
    show ?thesis by simp
  qed
  then have "fault env \<noteq> None \<longrightarrow> isl (fst (purchase_exit env r w1))"
    using purchase_exit_isl [of r env w1] by blast
  moreover have "isl (fst (purchase_exit env r w1)) \<longrightarrow>
      committed (snd (purchase_exit env r w1)) = committed w"
    using succeeded unchanged purchase_exit_committed [of env r w1] by auto
  ultimately show ?thesis
    unfolding call by blast
qed

text \<open>
  The store fails at the audit insert, after the stock write: the call answers 500 and the
  store is the one before the call.
\<close>

theorem purchase_failure_leaves_store_unchanged_witness:
  "isl (fst (purchase_with_lock exact_ops (sample_env\<lparr>fault := Some (AtExecute InsertAudit)\<rparr>)
          sample_request sample_user (Some ''127.0.0.1'') sample_world)) \<and>
   committed (snd (purchase_with_lock exact_ops (sample_env\<lparr>fault := Some (AtExecute InsertAudit)\<rparr>)
          sample_request sample_user (Some ''127.0.0.1'') sample_world)) = committed sample_world"
proof -
  have failed: "isl (fst (purchase_with_lock exact_ops
      (sample_env\<lparr>fault := Some (AtExecute InsertAudit)\<rparr>)
      sample_request sample_user (Some ''127.0.0.1'') sample_world))"
    by code_simp
  with purchase_failure_leaves_store_unchanged [of exact_ops
      "sample_env\<lparr>fault := Some (AtExecute InsertAudit)\<rparr>"
      sample_request sample_user "Some ''127.0.0.1''" sample_world]
  show ?thesis by blast
qed

section \<open>Outcome of the stock check\<close>

lemmas handler_defs = purchase_with_lock_def purchase_try_def lock_product_def
  purchase_locked_def purchase_exit_def handle_exception_def finally_cleanup_def stock_check_def

lemma sold_out_detail_contains:
  "sublist ''SOLD OUT'' ''SOLD OUT: This item is no longer available''"
  by (rule prefix_imp_sublist) simp

lemma insufficient_detail_contains:
  "sublist (str_int n) (''Insufficient stock. Only '' @ str_int n @ '' items available'')"
  by (rule sublist_appendI)

text \<open>
  C2. Once the product row is found and locked (the transaction is open and the lock query
  returns the row), a request for a positive quantity is classified by the stock of the row:
  stock 0 answers 400 with the SOLD OUT detail; a stock between 0 and the quantity answers
  400 with a detail that names the available stock; both abort, the store is unchanged;
  a stock of at least the quantity continues with the write phase on the locked row.
\<close>

theorem stock_check_classification:
  assumes opened: "open_transaction env (w\<lparr>connection := False, cursor := False\<rparr>) = Inr w1"
    and locked: "select_for_update_nowait env w1 (product_id req) = Inr (Some (pid, row))"
    and positive: "0 < quantity req"
  shows "(stock_quantity row = 0 \<longrightarrow>
            fst (purchase_with_lock ops env req usr client w) =
              Inl (HTTPException HTTP_400_BAD_REQUEST ''SOLD OUT: This item is no longer available'')) \<and>
         (0 < stock_quantity row \<and> stock_quantity row < quantity req \<longrightarrow>
            fst (purchase_with_lock ops env req usr client w) =
              Inl (HTTPException HTTP_400_BAD_REQUEST
                (''Insufficient stock. Only '' @ str_int (stock_quantity row) @ '' items available''))) \<and>
         (stock_quantity row < quantity req \<longrightarrow>
            committed (snd (purchase_with_lock ops env req usr client w)) = committed w) \<and>
         (quantity req \<le> stock_quantity row \<longrightarrow>
            purchase_try ops env req usr client (w\<lparr>connection := False, cursor := False\<rparr>) =
              write_phase ops env req usr client pid row (log_event (Execute LockQuery) w1))"
proof -
  from open_transaction_view [OF opened]
  have c: "committed w1 = committed w" and ok: "\<not> broken w1" "connection w1" "cursor w1"
    by simp_all
  show ?thesis
    using opened locked positive c ok
    by (auto simp: handler_defs cleanup_defs world_defs Let_def split: if_splits)
qed

text \<open>Two units of product 7 are requested and one is in stock.\<close>

theorem stock_check_classification_witness:
  "0 < quantity (sample_request\<lparr>quantity := 2\<rparr>) \<and>
   fst (purchase_with_lock exact_ops sample_env (sample_request\<lparr>quantity := 2\<rparr>) sample_user
          (Some ''127.0.0.1'') sample_world) =
     Inl (HTTPException HTTP_400_BAD_REQUEST ''Insufficient stock. Only 1 items available'')"
proof -
  let ?req = "sample_request\<lparr>quantity := 2\<rparr>"
  let ?w1 = "log_event (SetAutocommit False) (log_event OpenCursor
               ((getconn (sample_world\<lparr>connection := False, cursor := False\<rparr>))\<lparr>cursor := True\<rparr>))"
  have opened: "open_transaction sample_env (sample_world\<lparr>connection := False, cursor := False\<rparr>) = Inr ?w1"
    by (simp add: open_transaction_def sample_env_def cleanup_defs world_defs Let_def)
  have locked: "select_for_update_nowait sample_env ?w1 (product_id ?req) = Inr (Some (7, sample_vase))"
    by (simp add: select_for_update_nowait_def sample_env_def sample_request_def sample_world_def
        sample_db_def world_defs)
  have positive: "0 < quantity ?req"
    by (simp add: sample_request_def)
  have one: "str_int 1 = ''1''"
    by code_simp
  from stock_check_classification [OF opened locked positive, of exact_ops sample_user
      "Some ''127.0.0.1''"] positive one
  show ?thesis
    by (simp add: sample_request_def sample_vase_def)
qed

section \<open>The connection and the pool\<close>

lemma write_phase_frame:
  "write_phase ops env req usr client pid row w = (r, w') \<Longrightarrow>
     connection w' = connection w \<and> cursor w' = cursor w \<and> pool_in_use w' = pool_in_use w \<and>
     (\<exists>evs. events w' = events w @ evs \<and> count_list evs GetConn = 0 \<and> count_list evs PutConn = 0)"
  by (auto simp: write_phase_def world_defs Let_def
      split: if_splits sum.splits option.splits prod.splits)

lemma purchase_locked_frame:
  "purchase_locked ops env req usr client product w = (r, w') \<Longrightarrow>
     connection w' = connection w \<and> cursor w' = cursor w \<and> pool_in_use w' = pool_in_use w \<and>
     (\<exists>evs. events w' = events w @ evs \<and> count_list evs GetConn = 0 \<and> count_list evs PutConn = 0)"
  by (auto simp: purchase_locked_def stock_check_def cleanup_defs world_defs
      dest!: write_phase_frame
      split: if_splits sum.splits option.splits prod.splits)

lemma open_transaction_failure_frame:
  assumes "open_transaction env w = Inl (e, w1)"
  shows "(w1 = w \<and> fault env = Some AtGetConn) \<or>
         (connection w1 \<and> cursor w1 = cursor w \<and> broken w1 \<and>
          pool_in_use w1 = Suc (pool_in_use w) \<and> events w1 = events w @ [GetConn] \<and>
          fault env = Some AtCursor)"
  using assms
  by (auto simp: open_transaction_def cleanup_defs world_defs Let_def split: if_splits)

lemma open_transaction_success_frame:
  assumes "open_transaction env w = Inr w1"
  shows "connection w1 \<and> cursor w1 \<and> \<not> broken w1 \<and> pool_in_use w1 = Suc (pool_in_use w) \<and>
         events w1 = events w @ [GetConn, OpenCursor, SetAutocommit False] \<and>
         fault env \<noteq> Some AtGetConn \<and> fault env \<noteq> Some AtCursor"
  using assms
  by (auto simp: open_transaction_def cleanup_defs world_defs Let_def split: if_splits)

lemma lock_product_frame:
  assumes "lock_product env req w = Inl (e, w1) \<or> lock_product env req w = Inr (product, w1)"
  shows "connection w1 = connection w \<and> cursor w1 = cursor w \<and>
         pool_in_use w1 = pool_in_use w \<and>
         (\<exists>evs. events w1 = events w @ evs \<and> count_list evs GetConn = 0 \<and>
            count_list evs PutConn = 0)"
  using assms
  by (auto simp: lock_product_def cleanup_defs world_defs Let_def split: if_splits sum.splits)

lemma purchase_try_frame:
  assumes run: "purchase_try ops env req usr client w = (r, w')"
    and fresh: "\<not> connection w" "\<not> cursor w"
  shows "pool_in_use w' = pool_in_use w + (if connection w' then 1 else 0) \<and>
     (cursor w' \<longrightarrow> connection w') \<and>
     (\<exists>evs. events w' = events w @ evs \<and> count_list evs PutConn = 0 \<and>
       count_list evs GetConn = (if connection w' then 1 else 0) \<and>
       (if connection w' then hd evs = GetConn else evs = []))"
proof (cases "open_transaction env w")
  case (Inl a)
  obtain e w1 where a: "a = (e, w1)"
    by (cases a)
  have "w' = w1"
    using run Inl a by (simp add: purchase_try_def)
  with open_transaction_failure_frame [of env w e w1] Inl a fresh show ?thesis
    by auto
next
  case (Inr w1)
  from open_transaction_success_frame [OF Inr]
  have o: "connection w1" "cursor w1" "pool_in_use w1 = Suc (pool_in_use w)"
    "events w1 = events w @ [GetConn, OpenCursor, SetAutocommit False]"
    by simp_all
  have rest: "connection w' \<and> pool_in_use w' = pool_in_use w1 \<and>
      (\<exists>evs. events w' = events w1 @ evs \<and> count_list evs GetConn = 0 \<and>
         count_list evs PutConn = 0)"
  proof (cases "lock_product env req w1")
    case (Inl a)
    obtain e w2 where a: "a = (e, w2)"
      by (cases a)
    have "w' = w2"
      using run Inr Inl a by (simp add: purchase_try_def)
    with lock_product_frame [of env req w1 e w2] Inl a o show ?thesis
      by auto
  next
    case found: (Inr found)
    obtain product w2 where f: "found = (product, w2)"
      by (cases found)
    have l: "purchase_locked ops env req usr client product w2 = (r, w')"
      using run Inr found f by (simp add: purchase_try_def)
    from lock_product_frame [of env req w1 _ w2 product] found f obtain e2 where
      "connection w2 = connection w1" "pool_in_use w2 = pool_in_use w1"
      "events w2 = events w1 @ e2" "count_list e2 GetConn = 0" "count_list e2 PutConn = 0"
      by auto
    moreover from purchase_locked_frame [OF l] obtain e3 where
      "connection w' = connection w2" "pool_in_use w' = pool_in_use w2"
      "events w' = events w2 @ e3" "count_list e3 GetConn = 0" "count_list e3 PutConn = 0"
      by auto
    ultimately have "connection w' \<and> pool_in_use w' = pool_in_use w1 \<and>
        events w' = events w1 @ (e2 @ e3) \<and> count_list (e2 @ e3) GetConn = 0 \<and>
        count_list (e2 @ e3) PutConn = 0"
      using o by simp
    then show ?thesis
      by blast
  qed
  then obtain evs where "connection w'" "pool_in_use w' = pool_in_use w1"
    "events w' = events w1 @ evs" "count_list evs GetConn = 0" "count_list evs PutConn = 0"
    by auto
  then have "pool_in_use w' = pool_in_use w + 1 \<and> connection w' \<and>
      events w' = events w @ ([GetConn, OpenCursor, SetAutocommit False] @ evs) \<and>
      count_list ([GetConn, OpenCursor, SetAutocommit False] @ evs) PutConn = 0 \<and>
      count_list ([GetConn, OpenCursor, SetAutocommit False] @ evs) GetConn = 1 \<and>
      hd ([GetConn, OpenCursor, SetAutocommit False] @ evs) = GetConn"
    using o by simp
  then show ?thesis
    by (metis (full_types))
qed

lemma handle_exception_frame:
  "handle_exception env r w = (r', w') \<Longrightarrow>
     connection w' = connection w \<and> cursor w' = cursor w \<and> pool_in_use w' = pool_in_use w \<and>
     broken w' = broken w \<and>
     (\<exists>evs. events w' = events w @ evs \<and> count_list evs GetConn = 0 \<and>
        count_list evs PutConn = 0 \<and> (connection w \<or> evs = []))"
  by (auto simp: handle_exception_def cleanup_defs world_defs Let_def
      split: sum.splits exn.splits if_splits)

text \<open>The \<open>finally\<close> block when none of its calls raises, and when the setter of
  \<open>autocommit\<close> does.\<close>

lemma finally_cleanup_frame:
  assumes "CallCloseCursor \<notin> raises_after_fault env"
    and "CallSetAutocommit \<notin> raises_after_fault env"
    and "CallPutConn \<notin> raises_after_fault env"
  shows "fst (finally_cleanup env w) = None \<and>
   pool_in_use (snd (finally_cleanup env w)) = pool_in_use w - (if connection w then 1 else 0) \<and>
   (\<exists>evs. events (snd (finally_cleanup env w)) = events w @ evs \<and> count_list evs GetConn = 0 \<and>
      count_list evs PutConn = (if connection w then 1 else 0) \<and>
      (if connection w then last evs = PutConn else (cursor w \<or> evs = [])))"
  using assms by (simp add: finally_cleanup_def cleanup_defs world_defs)

lemma finally_cleanup_leak:
  assumes "connection w" and "broken w" and "CallSetAutocommit \<in> raises_after_fault env"
  shows "fst (finally_cleanup env w) = Some InterfaceError \<and>
   pool_in_use (snd (finally_cleanup env w)) = pool_in_use w \<and>
   (\<exists>evs. events (snd (finally_cleanup env w)) = events w @ evs \<and> count_list evs PutConn = 0 \<and>
      count_list evs GetConn = 0)"
  using assms by (simp add: finally_cleanup_def cleanup_defs world_defs)

text \<open>
  When no call of the \<open>finally\<close> block raises, the pool has as many connections in use
  after the call as before it, whatever the call answers and wherever the store fails: the
  calls the handler made are none at all (the pool gave no connection), or they start with
  \<open>getconn\<close> and end with \<open>putconn\<close>, each made once.
\<close>

lemma connection_returned_unless_cleanup_raises:
  assumes "CallCloseCursor \<notin> raises_after_fault env"
    and "CallSetAutocommit \<notin> raises_after_fault env"
    and "CallPutConn \<notin> raises_after_fault env"
  shows "pool_in_use (snd (purchase_with_lock ops env req usr client w)) = pool_in_use w \<and>
   (\<exists>evs. events (snd (purchase_with_lock ops env req usr client w)) = events w @ evs \<and>
      count_list evs GetConn = count_list evs PutConn \<and> count_list evs PutConn \<le> 1 \<and>
      (evs = [] \<or> hd evs = GetConn \<and> last evs = PutConn))"
proof -
  let ?w0 = "w\<lparr>connection := False, cursor := False\<rparr>"
  obtain r w1 where t: "purchase_try ops env req usr client ?w0 = (r, w1)"
    by (cases "purchase_try ops env req usr client ?w0")
  obtain r' w2 where h: "handle_exception env r w1 = (r', w2)"
    by (cases "handle_exception env r w1")
  have final: "snd (purchase_with_lock ops env req usr client w) = snd (finally_cleanup env w2)"
    using t h by (simp add: purchase_with_lock_def purchase_exit_def split: prod.splits)
  from purchase_try_frame [OF t] obtain e1 where
    p1: "pool_in_use w1 = pool_in_use w + (if connection w1 then 1 else 0)"
    and cc: "cursor w1 \<longrightarrow> connection w1"
    and e1: "events w1 = events w @ e1" "count_list e1 PutConn = 0"
      "count_list e1 GetConn = (if connection w1 then 1 else 0)"
      "if connection w1 then hd e1 = GetConn else e1 = []"
    by auto
  from handle_exception_frame [OF h] obtain e2 where
    p2: "connection w2 = connection w1" "cursor w2 = cursor w1" "pool_in_use w2 = pool_in_use w1"
    and e2: "events w2 = events w1 @ e2" "count_list e2 GetConn = 0" "count_list e2 PutConn = 0"
      "connection w1 \<or> e2 = []"
    by auto
  from finally_cleanup_frame [OF assms, of w2] obtain e3 where
    p3: "pool_in_use (snd (finally_cleanup env w2)) =
           pool_in_use w2 - (if connection w2 then 1 else 0)"
    and e3: "events (snd (finally_cleanup env w2)) = events w2 @ e3" "count_list e3 GetConn = 0"
      "count_list e3 PutConn = (if connection w2 then 1 else 0)"
      "if connection w2 then last e3 = PutConn else (cursor w2 \<or> e3 = [])"
    by auto
  have pool: "pool_in_use (snd (finally_cleanup env w2)) = pool_in_use w"
    using p1 p2 p3 by simp
  have ev: "events (snd (finally_cleanup env w2)) = events w @ (e1 @ e2 @ e3)"
    using e1 e2 e3 by simp
  have cnt: "count_list (e1 @ e2 @ e3) GetConn = count_list (e1 @ e2 @ e3) PutConn"
    "count_list (e1 @ e2 @ e3) PutConn \<le> 1"
    using e1 e2 e3 p2 by simp_all
  have ends: "e1 @ e2 @ e3 = [] \<or> hd (e1 @ e2 @ e3) = GetConn \<and> last (e1 @ e2 @ e3) = PutConn"
  proof (cases "connection w1")
    case True
    then have "e1 \<noteq> []" "e3 \<noteq> []"
      using e1 e3 p2 by auto
    then show ?thesis
      using True e1 e3 p2 by simp
  next
    case False
    then show ?thesis
      using e1 e2 e3 p2 cc by auto
  qed
  show ?thesis
    unfolding final using pool ev cnt ends by blast
qed

text \<open>
  When the store's fault has hit a call on the connection and the setter of \<open>autocommit\<close>
  raises after it, the \<open>finally\<close> block ends at line 690: \<open>putconn\<close> is not called, the
  pool keeps the connection as in use, and the exception of the setter is what the call
  raises.
\<close>

lemma purchase_try_fault_breaks:
  assumes "fault env = Some AtCursor \<or> fault env = Some (AtExecute LockQuery)"
    and "purchase_try ops env req usr client w = (r, w')"
  shows "connection w' \<and> broken w'"
proof (cases "open_transaction env w")
  case (Inl a)
  obtain e w1 where a: "a = (e, w1)"
    by (cases a)
  have "w' = w1"
    using assms(2) Inl a by (simp add: purchase_try_def)
  with open_transaction_failure_frame [of env w e w1] Inl a assms(1) show ?thesis
    by auto
next
  case (Inr w1)
  from open_transaction_success_frame [OF Inr] assms(1)
  have o: "connection w1" "fault env = Some (AtExecute LockQuery)"
    by auto
  then have "lock_product env req w1 =
      (case connection_rollback env (store_fails w1) of
         Inl e \<Rightarrow> Inl (e, store_fails w1)
       | Inr w2 \<Rightarrow>
           Inl (HTTPException HTTP_409_CONFLICT
                 ''Product is currently being purchased by another customer. Please try again.'',
                w2))"
    by (simp add: lock_product_def select_for_update_nowait_def Let_def)
  then show ?thesis
    using assms(2) Inr o
    by (auto simp: purchase_try_def cleanup_defs world_defs split: if_splits)
qed

lemma connection_leaks_when_setter_raises:
  assumes "fault env = Some AtCursor \<or> fault env = Some (AtExecute LockQuery)"
    and "CallSetAutocommit \<in> raises_after_fault env"
  shows "fst (purchase_with_lock ops env req usr client w) = Inl InterfaceError \<and>
   pool_in_use (snd (purchase_with_lock ops env req usr client w)) = Suc (pool_in_use w) \<and>
   (\<exists>evs. events (snd (purchase_with_lock ops env req usr client w)) = events w @ evs \<and>
      count_list evs GetConn = 1 \<and> count_list evs PutConn = 0)"
proof -
  let ?w0 = "w\<lparr>connection := False, cursor := False\<rparr>"
  obtain r w1 where t: "purchase_try ops env req usr client ?w0 = (r, w1)"
    by (cases "purchase_try ops env req usr client ?w0")
  obtain r' w2 where h: "handle_exception env r w1 = (r', w2)"
    by (cases "handle_exception env r w1")
  have call: "purchase_with_lock ops env req usr client w =
      (case fst (finally_cleanup env w2) of None \<Rightarrow> r' | Some e \<Rightarrow> Inl e,
       snd (finally_cleanup env w2))"
    using t h by (simp add: purchase_with_lock_def purchase_exit_def split: prod.splits)
  from purchase_try_fault_breaks [OF assms(1) t]
  have b1: "connection w1" "broken w1"
    by simp_all
  from purchase_try_frame [OF t] b1 obtain e1 where
    p1: "pool_in_use w1 = Suc (pool_in_use w)"
    and e1: "events w1 = events w @ e1" "count_list e1 PutConn = 0" "count_list e1 GetConn = 1"
    by auto
  from handle_exception_frame [OF h] obtain e2 where
    p2: "connection w2 = connection w1" "broken w2 = broken w1" "pool_in_use w2 = pool_in_use w1"
    and e2: "events w2 = events w1 @ e2" "count_list e2 GetConn = 0" "count_list e2 PutConn = 0"
    by auto
  from finally_cleanup_leak [OF _ _ assms(2), of w2] b1 p2 obtain e3 where
    f: "fst (finally_cleanup env w2) = Some InterfaceError"
    and p3: "pool_in_use (snd (finally_cleanup env w2)) = pool_in_use w2"
    and e3: "events (snd (finally_cleanup env w2)) = events w2 @ e3" "count_list e3 PutConn = 0"
      "count_list e3 GetConn = 0"
    by auto
  have "events (snd (finally_cleanup env w2)) = events w @ (e1 @ e2 @ e3) \<and>
      count_list (e1 @ e2 @ e3) GetConn = 1 \<and> count_list (e1 @ e2 @ e3) PutConn = 0"
    using e1 e2 e3 by simp
  then show ?thesis
    unfolding call using f p1 p2 p3 by auto
qed

text \<open>
  C9, at the failing input. One unit of product 7 is asked for and the connection is lost
  while the lock query runs. The query raises; \<open>connection.rollback()\<close> at line 548
  raises in the inner handler and again at line 678 in the outer one; in the \<open>finally\<close>
  block \<open>cursor.close()\<close> returns and \<open>connection.autocommit = True\<close> at line 690
  raises, so line 691 is not reached: \<open>putconn\<close> is never called and the pool counts the
  connection as in use after the call.
\<close>

theorem lost_connection_is_not_returned:
  "fault lost_connection_env = Some (AtExecute LockQuery) \<and>
   raises_after_fault lost_connection_env = {CallRollback, CallSetAutocommit} \<and>
   fst (purchase_with_lock exact_ops lost_connection_env sample_request sample_user
          (Some ''127.0.0.1'') sample_world) = Inl InterfaceError \<and>
   pool_in_use sample_world = 0 \<and>
   pool_in_use (snd (purchase_with_lock exact_ops lost_connection_env sample_request sample_user
          (Some ''127.0.0.1'') sample_world)) = 1 \<and>
   events (snd (purchase_with_lock exact_ops lost_connection_env sample_request sample_user
          (Some ''127.0.0.1'') sample_world)) =
     [GetConn, OpenCursor, SetAutocommit False, CloseCursor]"
  by (simp add: handler_defs open_transaction_def select_for_update_nowait_def cleanup_defs
      lost_connection_env_def sample_env_def sample_world_def world_defs Let_def)

section \<open>The success path and the price's type\<close>

text \<open>
  With a float price, the row found and locked, enough stock, \<open>request.client\<close> present and
  no store failure, the call returns the success body and commits one stock update and one
  row in each of the three tables.
\<close>

lemma purchase_success_float:
  assumes "fault env = None"
    and "product_id req \<notin> locked_elsewhere env"
    and "products (committed w) (product_id req) = Some row"
    and "price row = PyFloat p"
    and "quantity req \<le> stock_quantity row"
    and "client = Some host"
  shows "purchase_with_lock ops env req usr client w =
     (let total = fmul ops p (float_of_int ops (quantity req));
          commission_fee = fround2 ops (fmul ops total (float_lit ops 5 (- 2)));
          artisan_payout = fround2 ops (fsub ops total commission_fee);
          new_stock = stock_quantity row - quantity req;
          db = committed w;
          db' = db\<lparr>products := (products db)(product_id req \<mapsto> row\<lparr>stock_quantity := new_stock\<rparr>),
                  orders := orders db @
                    [\<lparr>ord_order_id = new_order_id env, ord_buyer_id = user_id usr,
                      ord_product_id = product_id req, ord_quantity = quantity req,
                      ord_total_price = PyFloat total,
                      ord_shipping_address = shipping_address req,
                      ord_created_at = new_created_at env\<rparr>],
                  transactions := transactions db @
                    [\<lparr>txn_transaction_id = new_transaction_id env,
                      txn_order_id = new_order_id env, txn_artisan_id = artisan_id row,
                      txn_buyer_id = user_id usr, txn_product_id = product_id req,
                      txn_amount = PyFloat total, txn_commission_fee = commission_fee,
                      txn_artisan_payout = artisan_payout\<rparr>],
                  audit_logs := audit_logs db @
                    [\<lparr>aud_user_id = user_id usr, aud_action_type = ''purchase'',
                      aud_entity_type = Some ''order'', aud_entity_id = Some (new_order_id env),
                      aud_details = Some (PurchaseDetails
                        \<lparr>det_product_name = product_name row, det_quantity = quantity req,
                         det_total_price = total, det_old_stock = stock_quantity row,
                         det_new_stock = new_stock\<rparr>),
                      aud_ip_address = Some host\<rparr>]\<rparr>
      in (Inr \<lparr>message = ''Purchase successful'', resp_order_id = new_order_id env,
               resp_transaction_id = new_transaction_id env,
               resp_product_name = product_name row, resp_quantity = quantity req,
               resp_total_price = total, resp_commission_fee = commission_fee,
               resp_artisan_payout = artisan_payout, resp_remaining_stock = new_stock,
               resp_created_at = isoformat (new_created_at env)\<rparr>,
          w\<lparr>committed := db', working := db', connection := True, cursor := True,
             broken := False,
             events := events w @
               [GetConn, OpenCursor, SetAutocommit False, Execute LockQuery,
                Execute UpdateStock, Execute InsertOrder, Execute InsertTransaction,
                Execute InsertAudit, Commit, CloseCursor, SetAutocommit True, PutConn]\<rparr>))"
  using assms
  by (simp add: handler_defs open_transaction_def select_for_update_nowait_def write_phase_def
      purchase_split_def commission_rate_def py_mul_int_def py_float_def cleanup_defs world_defs
      Let_def)

text \<open>
  With a Decimal price the same call stops at line 612: \<open>total_price * commission_rate\<close> is
  a Decimal times a float, which raises TypeError after the stock update and the order insert;
  the handler rolls back and answers 500.
\<close>

lemma purchase_decimal_price_fails:
  assumes "fault env = None"
    and "product_id req \<notin> locked_elsewhere env"
    and "products (committed w) (product_id req) = Some row"
    and "price row = PyDecimal c e"
    and "quantity req \<le> stock_quantity row"
  shows "fst (purchase_with_lock ops env req usr client w) =
           Inl (HTTPException HTTP_500_INTERNAL_SERVER_ERROR ''Purchase failed. Please try again.'') \<and>
         committed (snd (purchase_with_lock ops env req usr client w)) = committed w"
  using assms
  by (simp add: handler_defs open_transaction_def select_for_update_nowait_def write_phase_def
      purchase_split_def py_mul_int_def cleanup_defs world_defs Let_def)

text \<open>
  C1, at the failing input. Product 8 has one unit in stock at the price Decimal('100.00'),
  as psycopg2 returns a NUMERIC column; one unit is requested, the row is free, the store
  does not fail. The specification promises Success with total 100.00 and remaining stock 0; the
  handler answers 500 and the store keeps the unit.
\<close>

theorem decimal_price_purchase_answers_500:
  "fst (purchase_with_lock exact_ops sample_env (sample_request\<lparr>product_id := 8\<rparr>) sample_user
          (Some ''127.0.0.1'') sample_world) =
     Inl (HTTPException HTTP_500_INTERNAL_SERVER_ERROR ''Purchase failed. Please try again.'') \<and>
   committed (snd (purchase_with_lock exact_ops sample_env (sample_request\<lparr>product_id := 8\<rparr>)
          sample_user (Some ''127.0.0.1'') sample_world)) = sample_db \<and>
   price sample_bowl = PyDecimal 10000 (- 2) \<and> stock_quantity sample_bowl = 1 \<and>
   quantity (sample_request\<lparr>product_id := 8\<rparr>) = 1"
  using purchase_decimal_price_fails [of sample_env "sample_request\<lparr>product_id := 8\<rparr>"
      sample_world sample_bowl 10000 "- 2" exact_ops sample_user "Some ''127.0.0.1''"]
  by (simp add: sample_env_def sample_request_def sample_world_def sample_db_def sample_bowl_def)

section \<open>Which errors are reported as a lock conflict\<close>

text \<open>
  The inner handler of the lock query catches every exception. When its rollback returns,
  the call answers 409 exactly when the transaction was opened and the lock query raised,
  whatever it raised.
\<close>

lemma conflict_iff_lock_query_raises:
  assumes "CallRollback \<notin> raises_after_fault env"
    and "CallCloseCursor \<notin> raises_after_fault env"
    and "CallSetAutocommit \<notin> raises_after_fault env"
    and "CallPutConn \<notin> raises_after_fault env"
  shows "fst (purchase_with_lock ops env req usr client w) =
     Inl (HTTPException HTTP_409_CONFLICT
       ''Product is currently being purchased by another customer. Please try again.'') \<longleftrightarrow>
   (\<exists>w1. open_transaction env (w\<lparr>connection := False, cursor := False\<rparr>) = Inr w1 \<and>
         isl (select_for_update_nowait env w1 (product_id req)))"
proof -
  let ?w0 = "w\<lparr>connection := False, cursor := False\<rparr>"
  let ?conflict = "HTTPException HTTP_409_CONFLICT
       ''Product is currently being purchased by another customer. Please try again.''"
  have exit: "fst (purchase_exit env r w1) = fst (handle_exception env r w1)" for r w1
    using finally_cleanup_frame [OF assms(2,3,4), of "snd (handle_exception env r w1)"]
    by (auto simp: purchase_exit_def split: prod.splits)
  have call: "fst (purchase_with_lock ops env req usr client w) =
      fst (handle_exception env (fst (purchase_try ops env req usr client ?w0))
             (snd (purchase_try ops env req usr client ?w0)))"
    using exit by (auto simp: purchase_with_lock_def split: prod.splits)
  have handled: "fst (handle_exception env r w1) = Inl ?conflict \<longleftrightarrow> r = Inl ?conflict" for r w1
    using assms(1)
    by (auto simp: handle_exception_def cleanup_defs Let_def split: sum.splits exn.splits)
  show ?thesis
  proof (cases "open_transaction env ?w0")
    case (Inl a)
    then show ?thesis
      unfolding call handled
      by (cases a) (auto simp: purchase_try_def open_transaction_def cleanup_defs Let_def
          split: if_splits)
  next
    case (Inr w1)
    show ?thesis
    proof (cases "select_for_update_nowait env w1 (product_id req)")
      case (Inl e)
      with Inr assms(1) show ?thesis
        unfolding call handled
        by (simp add: purchase_try_def lock_product_def cleanup_defs Let_def)
    next
      case found: (Inr found)
      have "fst (purchase_try ops env req usr client ?w0) \<noteq> Inl (HTTPException HTTP_409_CONFLICT d)"
        for d
        using Inr found assms(1)
        by (auto simp: purchase_try_def lock_product_def purchase_locked_def stock_check_def
            write_phase_def purchase_split_def cleanup_defs Let_def
            split: option.splits if_splits sum.splits prod.splits pynum.splits)
      then show ?thesis
        unfolding call handled using Inr found by simp
    qed
  qed
qed

text \<open>
  C5, at the failing input. Product 7 is locked by nobody and the store raises an error of
  its own while it executes the lock query (the statement is cancelled, say, or the table
  is missing), which leaves the connection usable. The specification has this reported as
  InternalFailure with status 500; the handler answers 409, "currently being purchased by
  another customer".
\<close>

theorem lock_query_error_answers_409:
  "product_id sample_request \<notin> locked_elsewhere (sample_env\<lparr>fault := Some (AtExecute LockQuery)\<rparr>) \<and>
   select_for_update_nowait (sample_env\<lparr>fault := Some (AtExecute LockQuery)\<rparr>) sample_world
     (product_id sample_request) = Inl DatabaseError \<and>
   fst (purchase_with_lock exact_ops (sample_env\<lparr>fault := Some (AtExecute LockQuery)\<rparr>)
          sample_request sample_user (Some ''127.0.0.1'') sample_world) =
     Inl (HTTPException HTTP_409_CONFLICT
       ''Product is currently being purchased by another customer. Please try again.'')"
  by (simp add: handler_defs open_transaction_def select_for_update_nowait_def sample_env_def
      sample_request_def cleanup_defs world_defs Let_def)

section \<open>The two computations of the split\<close>

text \<open>
  C8. For every amount, the commission and the payout that \<open>create_transaction\<close> computes are
  those the purchase computes inline: the same literal rate 0.05 and the same
  \<open>round(_, 2)\<close>, and on a Decimal amount both raise TypeError.
\<close>

theorem split_paths_agree:
  "create_transaction_rate ops = commission_rate ops \<and>
   create_transaction_split ops amount = purchase_split ops amount"
  by (simp add: create_transaction_rate_def commission_rate_def create_transaction_split_def
      purchase_split_def split: pynum.splits)

section \<open>Commit and rollback in \<open>get_cursor\<close>\<close>



text \<open>
  The helpers run one statement under \<open>get_cursor\<close>: \<open>execute_update\<close> and
  \<open>execute_insert_returning\<close> with \<open>commit=True\<close>, \<open>execute_query\<close> without. A statement
  that raises leaves the durable state alone; one that returns makes its effect durable
  when the helper commits.
\<close>

lemma helper_statement_atomic:
  assumes "fault env = None"
  shows "(q (committed w) = Inr (v, db) \<longrightarrow>
            fst (execute_update env q w) = Inr v \<and>
            committed (snd (execute_update env q w)) = db \<and>
            fst (execute_insert_returning env q w) = Inr v \<and>
            committed (snd (execute_insert_returning env q w)) = db \<and>
            fst (execute_query env q w) = Inr v \<and>
            committed (snd (execute_query env q w)) = committed w) \<and>
         (q (committed w) = Inl e \<longrightarrow>
            fst (execute_update env q w) = Inl e \<and>
            committed (snd (execute_update env q w)) = committed w \<and>
            fst (execute_insert_returning env q w) = Inl e \<and>
            committed (snd (execute_insert_returning env q w)) = committed w \<and>
            fst (execute_query env q w) = Inl e \<and>
            committed (snd (execute_query env q w)) = committed w)"
  using assms
  by (auto simp: execute_update_def execute_insert_returning_def execute_query_def
      get_cursor_def cursor_execute_def world_defs Let_def)

section \<open>Stock is never negative\<close>

lemma stock_check_passes:
  "stock_check env req row w = None \<longleftrightarrow> quantity req \<le> stock_quantity row"
  by (simp add: stock_check_def split: sum.splits)

lemma write_phase_stock_nonneg:
  assumes "write_phase ops env req usr client pid row w = (r, w')"
    and "stock_nonneg (committed w)" and "stock_nonneg (working w)"
    and "quantity req \<le> stock_quantity row"
  shows "stock_nonneg (committed w') \<and> stock_nonneg (working w')"
  using assms
  by (auto simp: write_phase_def world_defs Let_def stock_nonneg_def
      split: if_splits sum.splits option.splits prod.splits)

lemma purchase_locked_stock_nonneg:
  assumes run: "purchase_locked ops env req usr client product w = (r, w')"
    and inv: "stock_nonneg (committed w)" "stock_nonneg (working w)"
  shows "stock_nonneg (committed w')"
proof (cases product)
  case None
  then show ?thesis
    using run inv by (auto simp: purchase_locked_def cleanup_defs world_defs split: if_splits)
next
  case (Some pr)
  obtain pid row where pr: "pr = (pid, row)" by (cases pr)
  show ?thesis
  proof (cases "stock_check env req row w")
    case None
    then have enough: "quantity req \<le> stock_quantity row"
      by (simp add: stock_check_passes)
    have "write_phase ops env req usr client pid row w = (r, w')"
      using run Some pr None by (simp add: purchase_locked_def)
    from write_phase_stock_nonneg [OF this inv enough]
    show ?thesis by simp
  next
    case checked: (Some a)
    obtain e w1 where a: "a = (e, w1)" by (cases a)
    have "w' = w1"
      using run Some pr checked a by (simp add: purchase_locked_def)
    with stock_check_committed [of env req row w e w1] checked a inv show ?thesis
      by simp
  qed
qed

lemma purchase_try_stock_nonneg:
  assumes run: "purchase_try ops env req usr client w = (r, w')"
    and inv: "stock_nonneg (committed w)"
  shows "stock_nonneg (committed w')"
proof (cases "open_transaction env w")
  case (Inl a)
  then show ?thesis
    using run inv open_transaction_failure [of env w "fst a" "snd a"]
    by (cases a) (simp add: purchase_try_def)
next
  case (Inr w1)
  note view = open_transaction_view [OF Inr]
  show ?thesis
  proof (cases "lock_product env req w1")
    case (Inl a)
    then show ?thesis
      using run inv Inr view lock_product_failure [of env req w1 "fst a" "snd a"]
      by (cases a) (simp add: purchase_try_def)
  next
    case found: (Inr found)
    obtain product w2 where f: "found = (product, w2)"
      by (cases found)
    from lock_product_view [of env req w1 product w2] found f
    have "committed w2 = committed w1" "working w2 = working w1"
      by (simp_all add: log_event_def)
    moreover have "purchase_locked ops env req usr client product w2 = (r, w')"
      using run Inr found f by (simp add: purchase_try_def)
    ultimately show ?thesis
      using view inv purchase_locked_stock_nonneg [of ops env req usr client product w2 r w']
      by simp
  qed
qed

lemma purchase_with_lock_stock_nonneg:
  assumes "stock_nonneg (committed w)"
  shows "stock_nonneg (committed (snd (purchase_with_lock ops env req usr client w)))"
proof -
  let ?w0 = "w\<lparr>connection := False, cursor := False\<rparr>"
  obtain r w1 where t: "purchase_try ops env req usr client ?w0 = (r, w1)"
    by (cases "purchase_try ops env req usr client ?w0")
  from purchase_try_stock_nonneg [OF t] assms have "stock_nonneg (committed w1)"
    by simp
  then show ?thesis
    using t purchase_exit_committed [of env r w1] by (simp add: purchase_with_lock_def)
qed

text \<open>
  A helper that runs one statement keeps every property of the durable state that the
  statement keeps.
\<close>

lemma get_cursor_statement_invariant:
  assumes "\<And>db v db'. P db \<Longrightarrow> q db = Inr (v, db') \<Longrightarrow> P db'"
    and "P (committed w)"
  shows "P (committed (snd (get_cursor env do_commit (cursor_execute q) w)))"
  using assms
  by (auto simp: get_cursor_def cursor_execute_def world_defs Let_def
      split: sum.splits prod.splits)

lemma create_new_product_stock_nonneg:
  assumes "stock_nonneg (committed w)" and "0 \<le> pc_stock_quantity d"
  shows "stock_nonneg (committed (snd (create_new_product price_column env_product env_audit d usr w)))"
proof -
  let ?cp = "create_product price_column env_product (user_id usr) (pc_product_name d)
               (pc_description d) (pc_price d) (pc_stock_quantity d) (pc_category d)
               (pc_image_url d) w"
  have one: "stock_nonneg (committed (snd ?cp))"
    unfolding create_product_def execute_insert_returning_def
    using assms
    by (intro get_cursor_statement_invariant [where P = stock_nonneg])
       (auto simp: insert_product_def stock_nonneg_def split: option.splits)
  have two: "stock_nonneg (committed (snd (create_audit_log env_audit u a et ei dt ip w1)))"
    if "stock_nonneg (committed w1)" for w1 u a et ei dt ip
    unfolding create_audit_log_def execute_insert_returning_def
    using that
    by (intro get_cursor_statement_invariant [where P = stock_nonneg])
       (auto simp: insert_audit_row_def stock_nonneg_def)
  obtain r w1 where cp: "?cp = (r, w1)"
    by (cases ?cp)
  have inv1: "stock_nonneg (committed w1)"
    using one cp by simp
  show ?thesis
  proof (cases r)
    case (Inl e)
    then show ?thesis
      using cp inv1 by (simp add: create_new_product_def Let_def)
  next
    case (Inr created)
    show ?thesis
    proof (cases created)
      case None
      then show ?thesis
        using cp inv1 Inr by (simp add: create_new_product_def Let_def)
    next
      case (Some pr)
      obtain pid row where pr: "pr = (pid, row)" by (cases pr)
      let ?al = "create_audit_log env_audit (user_id usr) ''product_created'' (Some ''product'')
                   (Some pid) (Some (ProductCreatedDetails (product_name row))) None w1"
      obtain r2 w2 where al: "?al = (r2, w2)"
        by (cases ?al)
      have "stock_nonneg (committed w2)"
        using two [OF inv1, of "user_id usr" "''product_created''" "Some ''product''" "Some pid"
            "Some (ProductCreatedDetails (product_name row))" None] al
        by simp
      then show ?thesis
        using cp Inr Some pr al
        by (cases r2) (simp_all add: create_new_product_def Let_def)
    qed
  qed
qed

lemma post_products_stock_nonneg:
  assumes "stock_nonneg (committed w)"
  shows "stock_nonneg (committed (snd (post_products ops price_column env_product env_audit d usr w)))"
proof (cases "product_create_errors ops d = [] \<and> role usr \<in> set [''artisan'']")
  case True
  then have "0 \<le> pc_stock_quantity d"
    by (auto simp: product_create_errors_def validate_stock_def split: sum.splits if_splits)
  from create_new_product_stock_nonneg [OF assms this] True show ?thesis
    by (simp add: post_products_def require_role_def)
next
  case False
  then show ?thesis
    using assms
    by (auto simp: post_products_def require_role_def split: list.splits)
qed

lemma handle_request_stock_nonneg:
  assumes "stock_nonneg (committed w)"
  shows "stock_nonneg (committed (handle_request ops price_column r w))"
proof (cases r)
  case (PostProducts d usr e1 e2)
  then show ?thesis
    using post_products_stock_nonneg [OF assms] by simp
next
  case (PostPurchaseLock req usr client env)
  then show ?thesis
    using purchase_with_lock_stock_nonneg [OF assms] assms
    by (auto simp: post_purchase_lock_def split: sum.splits)
qed

text \<open>
  C6. From a store in which no stock is negative, every sequence of product creations and
  purchases, whatever the requests, the roles, the store's answers and its failures, leads
  to a store in which no stock is negative. The write phase of a purchase is only entered
  with \<open>quantity \<le> stock_quantity\<close>, so the value it writes,
  \<open>stock_quantity - quantity\<close>, is not negative either.
\<close>

theorem stock_never_negative:
  "(stock_nonneg (committed w) \<longrightarrow> stock_nonneg (committed (serve ops price_column rs w))) \<and>
   (stock_check env req row w = None \<longrightarrow> 0 \<le> stock_quantity row - quantity req)"
proof
  show "stock_nonneg (committed w) \<longrightarrow> stock_nonneg (committed (serve ops price_column rs w))"
  proof (induction rs arbitrary: w)
    case Nil
    then show ?case by simp
  next
    case (Cons r rs)
    then show ?case
      using handle_request_stock_nonneg [of w ops price_column r] by simp
  qed
  show "stock_check env req row w = None \<longrightarrow> 0 \<le> stock_quantity row - quantity req"
    by (simp add: stock_check_passes)
qed

text \<open>
  The sample store satisfies the invariant, and so does the store after a product was
  created, bought and asked for again; the one unit of product 7 passes the stock check.
\<close>

theorem stock_never_negative_witness:
  "stock_nonneg (committed sample_world) \<and>
   stock_nonneg (committed (serve exact_ops PyFloat sample_requests sample_world)) \<and>
   stock_check sample_env sample_request sample_vase sample_world = None \<and>
   0 \<le> stock_quantity sample_vase - quantity sample_request"
proof -
  have inv: "stock_nonneg (committed sample_world)"
    by (simp add: stock_nonneg_def sample_world_def sample_db_def sample_vase_def sample_bowl_def)
  have passes: "stock_check sample_env sample_request sample_vase sample_world = None"
    by (simp add: stock_check_def sample_request_def sample_vase_def)
  from stock_never_negative [of sample_world exact_ops PyFloat sample_requests sample_env
      sample_request sample_vase] inv passes
  show ?thesis by simp
qed

lemma sample_requests_run:
  "map_option stock_quantity
     (products (committed (serve exact_ops PyFloat sample_requests sample_world)) 9) = Some 0 \<and>
   length (orders (committed (serve exact_ops PyFloat sample_requests sample_world))) = 1"
  by code_simp

section \<open>Racing for the stock of one product\<close>

lemma locked_by_others_iff:
  "p \<in> locked_by_others ts i \<longleftrightarrow>
     (\<exists>j a row w. j < length ts \<and> j \<noteq> i \<and> ts ! j = Locked a (p, row) w)"
proof
  assume "p \<in> locked_by_others ts i"
  then obtain j t where jt: "(j, t) \<in> set (enumerate 0 ts)" "j \<noteq> i" "p \<in> set (held t)"
    by (auto simp: locked_by_others_def split: if_splits)
  then have "j < length ts" "t = ts ! j"
    by (simp_all add: in_set_enumerate_eq)
  moreover from jt(3) obtain a row w where "t = Locked a (p, row) w"
    by (cases t) auto
  ultimately have "j < length ts \<and> j \<noteq> i \<and> ts ! j = Locked a (p, row) w"
    using jt(2) by simp
  then show "\<exists>j a row w. j < length ts \<and> j \<noteq> i \<and> ts ! j = Locked a (p, row) w"
    by blast
next
  assume "\<exists>j a row w. j < length ts \<and> j \<noteq> i \<and> ts ! j = Locked a (p, row) w"
  then obtain j a row w where j: "j < length ts" "j \<noteq> i" "ts ! j = Locked a (p, row) w"
    by auto
  then have "(j, Locked a (p, row) w) \<in> set (enumerate 0 ts)"
    by (simp add: in_set_enumerate_eq)
  with j show "p \<in> locked_by_others ts i"
    by (force simp: locked_by_others_def)
qed

lemma length_filter_update:
  "i < length xs \<Longrightarrow>
     length (filter P (xs[i := y])) + (if P (xs ! i) then 1 else 0) =
     length (filter P xs) + (if P y then 1 else 0)"
proof (induction xs arbitrary: i)
  case Nil
  then show ?case by simp
next
  case (Cons x xs)
  then show ?case
    by (cases i) auto
qed

lemma successes_update:
  assumes "i < length (threads s)" and "\<not> is_success (threads s ! i)"
  shows "successes (s\<lparr>store := db, threads := (threads s)[i := t]\<rparr>) =
           successes s + (if is_success t then 1 else 0)"
    and "successes (s\<lparr>threads := (threads s)[i := t]\<rparr>) =
           successes s + (if is_success t then 1 else 0)"
  using assms length_filter_update [of i "threads s" is_success t]
  by (simp_all add: successes_def)

text \<open>What a call answers once it has left its \<open>try\<close> block.\<close>

lemma purchase_exit_http:
  "\<not> broken w \<Longrightarrow>
     fst (purchase_exit env (Inl (HTTPException c d)) w) = Inl (HTTPException c d)"
  using finally_cleanup_not_broken [of w env]
  by (auto simp: purchase_exit_def handle_exception_def split: prod.splits)

lemma answer_unfold:
  "answer env i (r, w) s =
     s\<lparr>store := committed w, threads := (threads s)[i := Done (fst (purchase_exit env r w))]\<rparr>"
  using purchase_exit_committed [of env r w]
  by (auto simp: answer_def split: prod.splits)

lemma answer_failure:
  assumes "isl r" and "committed w = store s"
  shows "\<exists>e. answer env i (r, w) s = s\<lparr>threads := (threads s)[i := Done (Inl e)]\<rparr>"
proof -
  from purchase_exit_isl [OF assms(1), of env w] obtain e where
    "fst (purchase_exit env r w) = Inl e"
    by (cases "fst (purchase_exit env r w)") auto
  then show ?thesis
    using assms(2) by (auto simp: answer_unfold)
qed

lemma purchase_locked_none_fails:
  "isl (fst (purchase_locked ops env req usr client None w))"
  by (simp add: purchase_locked_def split: sum.splits)

lemma fresh_world_view:
  "committed (fresh_world db) = db" "working (fresh_world db) = db"
  "\<not> connection (fresh_world db)" "\<not> cursor (fresh_world db)"
  by (simp_all add: fresh_world_def)

text \<open>
  The first step of a call: it takes the lock on the row as the store has it, which no
  other call holds, or it answers with a failure and leaves the store alone.
\<close>

lemma step_ready_cases:
  assumes i: "i < length (threads s)" and ready: "threads s ! i = Ready a"
  shows "(\<exists>row w. thread_step ops i s =
              s\<lparr>threads := (threads s)[i := Locked a (product_id (att_request a), row) w]\<rparr> \<and>
            products (store s) (product_id (att_request a)) = Some row \<and>
            product_id (att_request a) \<notin> locked_by_others (threads s) i \<and> \<not> broken w) \<or>
         (\<exists>e. thread_step ops i s = s\<lparr>threads := (threads s)[i := Done (Inl e)]\<rparr>)"
proof -
  define env where "env = (att_env a)\<lparr>locked_elsewhere := locked_by_others (threads s) i\<rparr>"
  let ?req = "att_request a"
  show ?thesis
  proof (cases "open_transaction env (fresh_world (store s))")
    case (Inl f)
    obtain e w where f: "f = (e, w)"
      by (cases f)
    have step: "thread_step ops i s = answer env i (Inl e, w) s"
      using i ready Inl f by (simp add: thread_step_def env_def [symmetric])
    from open_transaction_failure [of env "fresh_world (store s)" e w] Inl f
    have "committed w = store s"
      by (simp add: fresh_world_view)
    from answer_failure [OF _ this, of "Inl e" env i] step show ?thesis
      by auto
  next
    case (Inr w)
    from open_transaction_view [OF Inr]
    have view: "committed w = store s" "working w = store s" "\<not> broken w"
      by (simp_all add: fresh_world_view)
    show ?thesis
    proof (cases "lock_product env ?req w")
      case (Inl f)
      obtain e w1 where f: "f = (e, w1)"
        by (cases f)
      have step: "thread_step ops i s = answer env i (Inl e, w1) s"
        using i ready Inr Inl f by (simp add: thread_step_def env_def [symmetric])
      from lock_product_failure [of env ?req w e w1] Inl f view
      have "committed w1 = store s"
        by simp
      from answer_failure [OF _ this, of "Inl e" env i] step show ?thesis
        by auto
    next
      case found: (Inr found)
      obtain product w1 where f: "found = (product, w1)"
        by (cases found)
      from lock_product_view [of env ?req w product w1] found f
      have w1: "w1 = log_event (Execute LockQuery) w"
        and sel: "select_for_update_nowait env w (product_id ?req) = Inr product"
        by simp_all
      show ?thesis
      proof (cases product)
        case None
        let ?rw = "purchase_locked ops env ?req (att_user a) (att_client a) None w1"
        have step: "thread_step ops i s = answer env i ?rw s"
          using i ready Inr found f None by (simp add: thread_step_def env_def [symmetric])
        obtain r w2 where rw: "?rw = (r, w2)"
          by (cases ?rw)
        have "isl r"
          using purchase_locked_none_fails [of ops env ?req "att_user a" "att_client a" w1] rw
          by simp
        moreover then have "committed w2 = store s"
          using purchase_locked_failure_committed [of ops env ?req "att_user a" "att_client a"
              None w1 _ w2] rw w1 view
          by (cases r) (auto simp: log_event_def)
        ultimately show ?thesis
          using answer_failure [of r w2 s env i] step rw by auto
      next
        case (Some pr)
        obtain pid row where pr: "pr = (pid, row)"
          by (cases pr)
        have step: "thread_step ops i s = s\<lparr>threads := (threads s)[i := Locked a (pid, row) w1]\<rparr>"
          using i ready Inr found f Some pr by (simp add: thread_step_def env_def [symmetric])
        have "pid = product_id ?req \<and> products (store s) (product_id ?req) = Some row \<and>
              product_id ?req \<notin> locked_by_others (threads s) i"
          using sel Some pr view
          by (auto simp: select_for_update_nowait_def env_def split: if_splits option.splits)
        moreover have "\<not> broken w1"
          using w1 view by (simp add: log_event_def)
        ultimately show ?thesis
          using step by auto
      qed
    qed
  qed
qed

text \<open>
  The second step of a call, which holds the lock and the row \<open>row\<close> it fetched, on a store
  that has this row: it sells \<open>quantity\<close> units of the stock of the row, or it answers
  with a failure and leaves the store alone.
\<close>

lemma write_phase_success:
  assumes "write_phase ops env req usr client pid row w = (Inr resp, w')"
    and "products (working w) pid = Some current"
  shows "products (committed w') =
           (products (working w))(pid \<mapsto>
              current\<lparr>stock_quantity := stock_quantity row - quantity req\<rparr>)"
  using assms
  by (auto simp: write_phase_def world_defs Let_def
      split: if_splits sum.splits option.splits prod.splits)

lemma step_locked_unfold:
  assumes i: "i < length (threads s)" and locked: "threads s ! i = Locked a product w"
    and env: "env = (att_env a)\<lparr>locked_elsewhere := locked_by_others (threads s) i\<rparr>"
    and run: "purchase_locked ops env (att_request a) (att_user a) (att_client a)
                (Some product) (at_store (store s) w) = (r, w')"
  shows "thread_step ops i s =
           s\<lparr>store := committed w', threads := (threads s)[i := Done (fst (purchase_exit env r w'))]\<rparr>"
  using i locked run
  by (simp add: thread_step_def env [symmetric] answer_unfold)

lemma step_locked_cases:
  assumes i: "i < length (threads s)" and locked: "threads s ! i = Locked a (pid, row) w"
    and sound: "\<not> broken w" and current: "products (store s) pid = Some row"
  shows "(\<exists>resp db. thread_step ops i s = s\<lparr>store := db, threads := (threads s)[i := Done (Inr resp)]\<rparr> \<and>
            quantity (att_request a) \<le> stock_quantity row \<and>
            products db = (products (store s))(pid \<mapsto>
              row\<lparr>stock_quantity := stock_quantity row - quantity (att_request a)\<rparr>)) \<or>
         (\<exists>e. thread_step ops i s = s\<lparr>threads := (threads s)[i := Done (Inl e)]\<rparr>)"
proof -
  define env where "env = (att_env a)\<lparr>locked_elsewhere := locked_by_others (threads s) i\<rparr>"
  let ?req = "att_request a"
  let ?w0 = "at_store (store s) w"
  let ?rw = "purchase_locked ops env ?req (att_user a) (att_client a) (Some (pid, row)) ?w0"
  have w0: "committed ?w0 = store s" "working ?w0 = store s" "\<not> broken ?w0"
    using sound by (simp_all add: at_store_def)
  obtain r w' where rw: "?rw = (r, w')"
    by (cases ?rw)
  note step = step_locked_unfold [OF i locked env_def rw]
  show ?thesis
  proof (cases r)
    case (Inl e)
    have "committed w' = store s"
      using purchase_locked_failure_committed [of ops env ?req "att_user a" "att_client a"
          "Some (pid, row)" ?w0 e w'] rw Inl w0
      by simp
    moreover from purchase_exit_isl [of r env w'] Inl obtain e' where
      "fst (purchase_exit env r w') = Inl e'"
      by (cases "fst (purchase_exit env r w')") auto
    ultimately show ?thesis
      using step by auto
  next
    case (Inr resp)
    have passed: "stock_check env ?req row ?w0 = None"
      using rw Inr by (auto simp: purchase_locked_def split: option.splits)
    then have enough: "quantity ?req \<le> stock_quantity row"
      by (simp add: stock_check_passes)
    have wp: "write_phase ops env ?req (att_user a) (att_client a) pid row ?w0 = (Inr resp, w')"
      using rw Inr passed by (simp add: purchase_locked_def)
    from write_phase_success [OF wp, of row] current w0
    have db: "products (committed w') =
        (products (store s))(pid \<mapsto> row\<lparr>stock_quantity := stock_quantity row - quantity ?req\<rparr>)"
      by simp
    from write_phase_success_not_broken [OF wp] w0 have "\<not> broken w'"
      by simp
    from purchase_exit_success [OF this, of env resp] Inr
    have "fst (purchase_exit env r w') = Inr resp"
      by simp
    then show ?thesis
      using step enough db by auto
  qed
qed

lemma thread_for_not_locked:
  "\<not> is_locked t \<Longrightarrow> thread_for pid q c t \<Longrightarrow> thread_for pid q c' t"
  by (cases t) simp_all

lemma race_inv_current_row:
  assumes "race_inv pid q row s"
  shows "products (store s) pid =
           Some (row\<lparr>stock_quantity := stock_quantity row - q * int (successes s)\<rparr>)"
  using assms by (simp add: race_inv_def)

lemma race_inv_thread_for:
  assumes "race_inv pid q row s" and "i < length (threads s)"
  shows "thread_for pid q (row\<lparr>stock_quantity := stock_quantity row - q * int (successes s)\<rparr>)
           (threads s ! i)"
  using assms by (simp add: race_inv_def)

lemma race_inv_one_lock:
  assumes "race_inv pid q row s" and "i < length (threads s)" and "j < length (threads s)"
    and "is_locked (threads s ! i)" and "is_locked (threads s ! j)"
  shows "i = j"
  using assms unfolding race_inv_def by blast

text \<open>A call answers with a failure, the store as it was.\<close>

lemma failure_keeps_inv:
  assumes inv: "race_inv pid q row s" and i: "i < length (threads s)"
    and before: "\<not> is_success (threads s ! i)"
  shows "race_inv pid q row (s\<lparr>threads := (threads s)[i := Done (Inl e)]\<rparr>)"
proof -
  let ?ts = "(threads s)[i := Done (Inl e)]"
  let ?s' = "s\<lparr>threads := ?ts\<rparr>"
  let ?cur = "row\<lparr>stock_quantity := stock_quantity row - q * int (successes s)\<rparr>"
  have succ: "successes ?s' = successes s"
    using successes_update(2) [OF i before, of "Done (Inl e)"] by simp
  have a: "thread_for pid q ?cur (?ts ! j)" if "j < length (threads s)" for j
    using race_inv_thread_for [OF inv that] that by (cases "j = i") simp_all
  have l: "is_locked (threads s ! j)" if "j < length (threads s)" "is_locked (?ts ! j)" for j
    using that by (cases "j = i") simp_all
  have d: "j = k" if "j < length (threads s)" "k < length (threads s)"
    "is_locked (?ts ! j)" "is_locked (?ts ! k)" for j k
    using race_inv_one_lock [OF inv that(1,2) l [OF that(1,3)] l [OF that(2,4)]] .
  have b: "products (store ?s') pid = Some ?cur" "0 \<le> stock_quantity row - q * int (successes s)"
    using inv by (simp_all add: race_inv_def)
  show ?thesis
    unfolding race_inv_def succ using a b d by simp
qed

text \<open>A call takes the lock on the row, which no other call holds.\<close>

lemma lock_keeps_inv:
  assumes inv: "race_inv pid q row s" and i: "i < length (threads s)"
    and ready: "threads s ! i = Ready a"
    and current: "products (store s) (product_id (att_request a)) = Some r"
    and free: "product_id (att_request a) \<notin> locked_by_others (threads s) i"
    and sound: "\<not> broken w"
  shows "race_inv pid q row
           (s\<lparr>threads := (threads s)[i := Locked a (product_id (att_request a), r) w]\<rparr>)"
proof -
  let ?t = "Locked a (product_id (att_request a), r) w"
  let ?ts = "(threads s)[i := ?t]"
  let ?s' = "s\<lparr>threads := ?ts\<rparr>"
  let ?cur = "row\<lparr>stock_quantity := stock_quantity row - q * int (successes s)\<rparr>"
  have succ: "successes ?s' = successes s"
    using successes_update(2) [OF i, of ?t] ready by simp
  have target: "attempt_for pid q a"
    using race_inv_thread_for [OF inv i] ready by simp
  then have pid: "product_id (att_request a) = pid"
    by (simp add: attempt_for_def)
  have r: "r = ?cur"
    using race_inv_current_row [OF inv] current pid by simp
  have a: "thread_for pid q ?cur (?ts ! j)" if "j < length (threads s)" for j
    using race_inv_thread_for [OF inv that] that target pid r sound by (cases "j = i") simp_all
  have others: "\<not> is_locked (threads s ! j)" if "j < length (threads s)" "j \<noteq> i" for j
  proof
    assume "is_locked (threads s ! j)"
    then obtain b product v where b: "threads s ! j = Locked b product v"
      by (cases "threads s ! j") auto
    with race_inv_thread_for [OF inv that(1)] have "product = (pid, ?cur)"
      by simp
    with b that have "pid \<in> locked_by_others (threads s) i"
      unfolding locked_by_others_iff by blast
    with free pid show False
      by simp
  qed
  have l: "j = i" if "j < length (threads s)" "is_locked (?ts ! j)" for j
    using that others [of j] by (cases "j = i") simp_all
  have d: "j = k" if "j < length (threads s)" "k < length (threads s)"
    "is_locked (?ts ! j)" "is_locked (?ts ! k)" for j k
    using l [OF that(1,3)] l [OF that(2,4)] by simp
  have b: "products (store ?s') pid = Some ?cur" "0 \<le> stock_quantity row - q * int (successes s)"
    using inv by (simp_all add: race_inv_def)
  show ?thesis
    unfolding race_inv_def succ using a b d by simp
qed

text \<open>The call that holds the lock sells \<open>q\<close> units of the row it fetched.\<close>

lemma sale_keeps_inv:
  assumes inv: "race_inv pid q row s" and i: "i < length (threads s)"
    and locked: "threads s ! i = Locked a product w"
    and enough: "q \<le> stock_quantity row - q * int (successes s)"
    and db: "products db = (products (store s))(pid \<mapsto>
        row\<lparr>stock_quantity := stock_quantity row - q * int (successes s) - q\<rparr>)"
  shows "race_inv pid q row (s\<lparr>store := db, threads := (threads s)[i := Done (Inr resp)]\<rparr>)"
    and "successes (s\<lparr>store := db, threads := (threads s)[i := Done (Inr resp)]\<rparr>) =
           Suc (successes s)"
proof -
  let ?ts = "(threads s)[i := Done (Inr resp)]"
  let ?s' = "s\<lparr>store := db, threads := ?ts\<rparr>"
  let ?cur = "row\<lparr>stock_quantity := stock_quantity row - q * int (successes s)\<rparr>"
  let ?new = "row\<lparr>stock_quantity := stock_quantity row - q * int (Suc (successes s))\<rparr>"
  show succ: "successes ?s' = Suc (successes s)"
    using successes_update(1) [OF i, of "Done (Inr resp)" db] locked by simp
  have others: "\<not> is_locked (threads s ! j)" if "j < length (threads s)" "j \<noteq> i" for j
    using race_inv_one_lock [OF inv that(1) i] locked that(2) by auto
  have a: "thread_for pid q ?new (?ts ! j)" if "j < length (threads s)" for j
  proof (cases "j = i")
    case True
    then show ?thesis
      using that by simp
  next
    case False
    from thread_for_not_locked [OF others [OF that False] race_inv_thread_for [OF inv that]]
    show ?thesis
      using False by simp
  qed
  have l: "\<not> is_locked (?ts ! j)" if "j < length (threads s)" for j
    using others [OF that] that by (cases "j = i") simp_all
  have new: "stock_quantity row - q * int (successes s) - q =
      stock_quantity row - q * int (Suc (successes s))"
    by (simp add: algebra_simps)
  have b: "products (store ?s') pid = Some ?new"
    using db by (simp add: new)
  have c: "0 \<le> stock_quantity row - q * int (Suc (successes s))"
    using enough by (simp add: algebra_simps)
  show "race_inv pid q row ?s'"
    unfolding race_inv_def succ using a b c l by simp
qed

lemma thread_step_length:
  "length (threads (thread_step ops i s)) = length (threads s)"
  by (auto simp: thread_step_def answer_def Let_def
      split: thread.splits prod.splits sum.splits option.splits)

lemma thread_step_inv:
  assumes inv: "race_inv pid q row s"
  shows "race_inv pid q row (thread_step ops i s)"
proof (cases "i < length (threads s)")
  case False
  then show ?thesis
    using inv by (simp add: thread_step_def)
next
  case i: True
  let ?cur = "row\<lparr>stock_quantity := stock_quantity row - q * int (successes s)\<rparr>"
  show ?thesis
  proof (cases "threads s ! i")
    case (Done r)
    then show ?thesis
      using inv i by (simp add: thread_step_def)
  next
    case (Ready a)
    then have before: "\<not> is_success (threads s ! i)"
      by simp
    from step_ready_cases [OF i Ready, of ops] show ?thesis
    proof (elim disjE exE conjE)
      fix r w
      assume "thread_step ops i s =
          s\<lparr>threads := (threads s)[i := Locked a (product_id (att_request a), r) w]\<rparr>"
        "products (store s) (product_id (att_request a)) = Some r"
        "product_id (att_request a) \<notin> locked_by_others (threads s) i" "\<not> broken w"
      with lock_keeps_inv [OF inv i Ready, of r w] show ?thesis
        by simp
    next
      fix e
      assume "thread_step ops i s = s\<lparr>threads := (threads s)[i := Done (Inl e)]\<rparr>"
      with failure_keeps_inv [OF inv i before, of e] show ?thesis
        by simp
    qed
  next
    case (Locked a product w)
    then have before: "\<not> is_success (threads s ! i)"
      by simp
    from race_inv_thread_for [OF inv i] Locked
    have target: "attempt_for pid q a" and product: "product = (pid, ?cur)" and sound: "\<not> broken w"
      by simp_all
    then have q: "quantity (att_request a) = q"
      by (simp add: attempt_for_def)
    note locked = Locked [unfolded product]
    from step_locked_cases [OF i locked sound race_inv_current_row [OF inv], of ops]
    show ?thesis
    proof (elim disjE exE conjE)
      fix resp db
      assume "thread_step ops i s = s\<lparr>store := db, threads := (threads s)[i := Done (Inr resp)]\<rparr>"
        "quantity (att_request a) \<le> stock_quantity ?cur"
        "products db = (products (store s))(pid \<mapsto>
           ?cur\<lparr>stock_quantity := stock_quantity ?cur - quantity (att_request a)\<rparr>)"
      with sale_keeps_inv(1) [OF inv i locked, of db resp] q show ?thesis
        by simp
    next
      fix e
      assume "thread_step ops i s = s\<lparr>threads := (threads s)[i := Done (Inl e)]\<rparr>"
      with failure_keeps_inv [OF inv i before, of e] show ?thesis
        by simp
    qed
  qed
qed

lemma run_inv:
  assumes "race_inv pid q row s"
  shows "race_inv pid q row (run ops sched s) \<and>
         length (threads (run ops sched s)) = length (threads s)"
  using assms
proof (induction sched arbitrary: s)
  case Nil
  then show ?case by simp
next
  case (Cons i sched)
  from Cons.IH [OF thread_step_inv [OF Cons.prems, of ops i]]
  show ?case
    by (simp add: thread_step_length)
qed

lemma no_success_at_start: "filter is_success (map Ready attempts) = []"
  by (induction attempts) simp_all

lemma initial_inv:
  assumes "products db pid = Some row" and "0 \<le> stock_quantity row"
    and "list_all (attempt_for pid q) attempts"
  shows "race_inv pid q row (initial_system db attempts)"
proof -
  have "successes (initial_system db attempts) = 0"
    by (simp add: successes_def initial_system_def no_success_at_start)
  then show ?thesis
    using assms
    by (auto simp: race_inv_def initial_system_def list_all_length)
qed

lemma units_sold_bound:
  fixes q S :: int
  assumes "0 < q" and "0 \<le> S - q * int n"
  shows "int n \<le> S div q"
proof -
  have "int n * q \<le> S"
    using assms(2) by (simp add: mult.commute)
  then have "(int n * q) div q \<le> S div q"
    by (rule zdiv_mono1) (rule assms(1))
  then show ?thesis
    using assms(1) by simp
qed

text \<open>
  The same steps for an attempt with its client, a float price and a store that does not
  fail: what the call answers is determined.
\<close>

lemma step_ready_conflict:
  assumes i: "i < length (threads s)" and ready: "threads s ! i = Ready a"
    and ok: "attempt_ok pid q a" and current: "products (store s) pid = Some r"
    and held: "pid \<in> locked_by_others (threads s) i"
  shows "thread_step ops i s = s\<lparr>threads := (threads s)[i := Done (Inl lock_contention)]\<rparr>"
  using assms
  by (simp add: thread_step_def attempt_ok_def open_transaction_def lock_product_def
      select_for_update_nowait_def answer_def purchase_exit_def handle_exception_def
      finally_cleanup_def cleanup_defs world_defs fresh_world_def lock_contention_def Let_def)

lemma purchase_locked_sale_env:
  assumes ok: "attempt_ok pid q a" and float: "price r = PyFloat p"
    and enough: "q \<le> stock_quantity r"
  shows "\<exists>resp w'. purchase_locked ops ((att_env a)\<lparr>locked_elsewhere := others\<rparr>)
           (att_request a) (att_user a) (att_client a) (Some (pid, r)) w = (Inr resp, w')"
proof -
  from ok obtain host where host: "att_client a = Some host"
    by (auto simp: attempt_ok_def)
  show ?thesis
    using ok host float enough
    by (simp add: purchase_locked_def stock_check_def write_phase_def purchase_split_def
        py_mul_int_def attempt_ok_def Let_def)
qed

lemma step_locked_short:
  assumes i: "i < length (threads s)" and locked: "threads s ! i = Locked a (pid, r) w"
    and ok: "attempt_ok pid q a" and sound: "\<not> broken w"
    and short: "stock_quantity r < q"
  shows "thread_step ops i s =
           s\<lparr>threads := (threads s)[i := Done (Inl
               (if stock_quantity r = 0 then sold_out else insufficient_stock (stock_quantity r)))]\<rparr>"
  using assms
  by (simp add: thread_step_def attempt_ok_def purchase_locked_def stock_check_def
      answer_def purchase_exit_def handle_exception_def finally_cleanup_def cleanup_defs
      world_defs at_store_def sold_out_def insufficient_stock_def Let_def)

lemma progress_inv_thread_ok:
  assumes "progress_inv pid q row s" and "i < length (threads s)"
  shows "thread_ok pid q (threads s ! i)"
  using assms by (simp add: progress_inv_def)

lemma thread_ok_update:
  assumes "\<And>j. j < length ts \<Longrightarrow> thread_ok pid q (ts ! j)" and "thread_ok pid q t"
  shows "\<forall>j < length (ts[i := t]). thread_ok pid q (ts[i := t] ! j)"
proof (intro allI impI)
  fix j
  assume "j < length (ts[i := t])"
  then show "thread_ok pid q (ts[i := t] ! j)"
    using assms by (cases "j = i") simp_all
qed

lemma done_not_locked: "is_done t \<Longrightarrow> \<not> is_locked t"
  by (cases t) simp_all

text \<open>A call is turned away by the lock of another call, which still holds it.\<close>

lemma conflict_keeps_progress:
  assumes inv: "progress_inv pid q row s" and i: "i < length (threads s)"
    and ready: "threads s ! i = Ready a"
    and j: "j < length (threads s)" "is_locked (threads s ! j)"
  shows "progress_inv pid q row (s\<lparr>threads := (threads s)[i := Done (Inl lock_contention)]\<rparr>)"
proof -
  let ?ts = "(threads s)[i := Done (Inl lock_contention)]"
  let ?s' = "s\<lparr>threads := ?ts\<rparr>"
  have succ: "successes ?s' = successes s"
    using successes_update(2) [OF i, of "Done (Inl lock_contention)"] ready by simp
  have "thread_ok pid q (Done (Inl lock_contention))"
    by (simp add: outcome_ok_def)
  from thread_ok_update [where ts = "threads s" and i = i, OF progress_inv_thread_ok [OF inv] this]
  have a: "\<forall>k < length (threads ?s'). thread_ok pid q (threads ?s' ! k)"
    by simp
  have ji: "j \<noteq> i"
    using ready j(2) by auto
  then have still: "\<exists>k < length (threads ?s'). is_locked (threads ?s' ! k)"
    using j by (auto intro!: exI [of _ j])
  have e: "threads ?s' ! k = Done (Inl lock_contention)"
    if "successes s = 0" "q \<le> stock_quantity row" "k < length (threads ?s')"
      "is_done (threads ?s' ! k)" for k
  proof (cases "k = i")
    case True
    then show ?thesis
      using i by simp
  next
    case False
    with that inv show ?thesis
      by (simp add: progress_inv_def)
  qed
  show ?thesis
    unfolding progress_inv_def succ using a still e by blast
qed

text \<open>A call takes the lock.\<close>

lemma lock_keeps_progress:
  assumes inv: "progress_inv pid q row s" and i: "i < length (threads s)"
    and ready: "threads s ! i = Ready a"
  shows "progress_inv pid q row (s\<lparr>threads := (threads s)[i := Locked a product w]\<rparr>)"
proof -
  let ?ts = "(threads s)[i := Locked a product w]"
  let ?s' = "s\<lparr>threads := ?ts\<rparr>"
  have succ: "successes ?s' = successes s"
    using successes_update(2) [OF i, of "Locked a product w"] ready by simp
  have "thread_ok pid q (Locked a product w)"
    using progress_inv_thread_ok [OF inv i] ready by simp
  from thread_ok_update [where ts = "threads s" and i = i, OF progress_inv_thread_ok [OF inv] this]
  have a: "\<forall>k < length (threads ?s'). thread_ok pid q (threads ?s' ! k)"
    by simp
  have still: "\<exists>k < length (threads ?s'). is_locked (threads ?s' ! k)"
    using i by (auto intro!: exI [of _ i])
  have e: "threads ?s' ! k = Done (Inl lock_contention)"
    if "successes s = 0" "q \<le> stock_quantity row" "k < length (threads ?s')"
      "is_done (threads ?s' ! k)" for k
  proof (cases "k = i")
    case True
    then show ?thesis
      using i that(4) by simp
  next
    case False
    with that inv show ?thesis
      by (simp add: progress_inv_def)
  qed
  show ?thesis
    unfolding progress_inv_def succ using a still e by blast
qed

text \<open>The call that holds the lock answers, after units were sold or for want of stock.\<close>

lemma release_keeps_progress:
  assumes inv: "progress_inv pid q row s" and i: "i < length (threads s)"
    and out: "outcome_ok q r"
    and sold: "\<not> (successes s' = 0 \<and> q \<le> stock_quantity row)"
    and s': "threads s' = (threads s)[i := Done r]"
  shows "progress_inv pid q row s'"
proof -
  have "thread_ok pid q (Done r)"
    using out by simp
  from thread_ok_update [where ts = "threads s" and i = i, OF progress_inv_thread_ok [OF inv] this]
  have a: "\<forall>k < length (threads s'). thread_ok pid q (threads s' ! k)"
    by (simp add: s')
  show ?thesis
    unfolding progress_inv_def using a sold by blast
qed

lemma thread_step_progress:
  assumes safe: "race_inv pid q row s" and inv: "progress_inv pid q row s"
    and float: "price row = PyFloat p"
  shows "progress_inv pid q row (thread_step ops i s)"
proof (cases "i < length (threads s)")
  case False
  then show ?thesis
    using inv by (simp add: thread_step_def)
next
  case i: True
  define k where "k = stock_quantity row - q * int (successes s)"
  let ?cur = "row\<lparr>stock_quantity := k\<rparr>"
  have current: "products (store s) pid = Some ?cur"
    using race_inv_current_row [OF safe] by (simp add: k_def)
  have nonneg: "0 \<le> k"
    using safe by (simp add: race_inv_def k_def)
  show ?thesis
  proof (cases "threads s ! i")
    case (Done r)
    then show ?thesis
      using inv i by (simp add: thread_step_def)
  next
    case (Ready a)
    have ok: "attempt_ok pid q a"
      using progress_inv_thread_ok [OF inv i] Ready by simp
    then have pid: "product_id (att_request a) = pid"
      by (simp add: attempt_ok_def)
    show ?thesis
    proof (cases "pid \<in> locked_by_others (threads s) i")
      case True
      then obtain j where j: "j < length (threads s)" "is_locked (threads s ! j)"
        unfolding locked_by_others_iff by force
      from step_ready_conflict [OF i Ready ok current True, of ops]
        conflict_keeps_progress [OF inv i Ready j]
      show ?thesis
        by simp
    next
      case False
      from step_ready_cases [OF i Ready, of ops] show ?thesis
      proof (elim disjE exE conjE)
        fix r w
        assume "thread_step ops i s =
            s\<lparr>threads := (threads s)[i := Locked a (product_id (att_request a), r) w]\<rparr>"
        with lock_keeps_progress [OF inv i Ready] show ?thesis
          by simp
      next
        fix e
        assume failed: "thread_step ops i s = s\<lparr>threads := (threads s)[i := Done (Inl e)]\<rparr>"
        have "\<exists>w. thread_step ops i s = s\<lparr>threads := (threads s)[i := Locked a (pid, ?cur) w]\<rparr>"
          using i Ready ok current False
          by (simp add: thread_step_def attempt_ok_def open_transaction_def lock_product_def
              select_for_update_nowait_def cleanup_defs world_defs fresh_world_def Let_def)
            blast
        then obtain w where
          "thread_step ops i s = s\<lparr>threads := (threads s)[i := Locked a (pid, ?cur) w]\<rparr>"
          by blast
        with lock_keeps_progress [OF inv i Ready] show ?thesis
          by simp
      qed
    qed
  next
    case (Locked a product w)
    have ok: "attempt_ok pid q a"
      using progress_inv_thread_ok [OF inv i] Locked by simp
    from race_inv_thread_for [OF safe i] Locked
    have product: "product = (pid, ?cur)" and sound: "\<not> broken w"
      by (simp_all add: k_def)
    note locked = Locked [unfolded product]
    have price: "price ?cur = PyFloat p"
      using float by simp
    show ?thesis
    proof (cases "q \<le> k")
      case True
      then have enough: "q \<le> stock_quantity ?cur"
        by simp
      from step_locked_cases [OF i locked sound current, of ops] show ?thesis
      proof (elim disjE exE conjE)
        fix resp db
        assume step: "thread_step ops i s =
            s\<lparr>store := db, threads := (threads s)[i := Done (Inr resp)]\<rparr>"
        have "successes (thread_step ops i s) = Suc (successes s)"
          unfolding step using successes_update(1) [OF i, of "Done (Inr resp)" db] Locked by simp
        then have "\<not> (successes (thread_step ops i s) = 0 \<and> q \<le> stock_quantity row)"
          by simp
        moreover have "outcome_ok q (Inr resp)"
          by (simp add: outcome_ok_def)
        ultimately show ?thesis
          using release_keeps_progress [OF inv i, of "Inr resp" "thread_step ops i s"] step
          by simp
      next
        fix e
        let ?env = "(att_env a)\<lparr>locked_elsewhere := locked_by_others (threads s) i\<rparr>"
        assume failed: "thread_step ops i s = s\<lparr>threads := (threads s)[i := Done (Inl e)]\<rparr>"
        from purchase_locked_sale_env [OF ok price enough, of ops "locked_by_others (threads s) i"
            "at_store (store s) w"]
        obtain resp w' where run: "purchase_locked ops ?env (att_request a) (att_user a)
            (att_client a) (Some (pid, ?cur)) (at_store (store s) w) = (Inr resp, w')"
          by blast
        from purchase_locked_success_not_broken [OF run] sound have "\<not> broken w'"
          by (simp add: at_store_def)
        from purchase_exit_success [OF this, of ?env resp]
          step_locked_unfold [OF i locked refl run]
        have "threads (thread_step ops i s) ! i = Done (Inr resp)"
          using i by simp
        with failed i show ?thesis
          by simp
      qed
    next
      case False
      then have short: "stock_quantity ?cur < q"
        by simp
      define e where "e = (if k = 0 then sold_out else insufficient_stock k)"
      from step_locked_short [OF i locked ok sound short, of ops]
      have step: "thread_step ops i s = s\<lparr>threads := (threads s)[i := Done (Inl e)]\<rparr>"
        by (simp add: e_def)
      have "successes (thread_step ops i s) = successes s"
        unfolding step using successes_update(2) [OF i, of "Done (Inl e)"] Locked by simp
      then have sold: "\<not> (successes (thread_step ops i s) = 0 \<and> q \<le> stock_quantity row)"
        using False by (auto simp: k_def)
      have out: "outcome_ok q (Inl e)"
      proof (cases "k = 0")
        case True
        then show ?thesis by (simp add: outcome_ok_def e_def)
      next
        case nonzero: False
        then have "0 < k \<and> k < q \<and> e = insufficient_stock k"
          using False nonneg by (simp add: e_def)
        then show ?thesis
          unfolding outcome_ok_def by blast
      qed
      from release_keeps_progress [OF inv i out sold, of ] step show ?thesis
        by simp
    qed
  qed
qed

lemma run_progress:
  assumes "race_inv pid q row s" and "progress_inv pid q row s" and "price row = PyFloat p"
  shows "progress_inv pid q row (run ops sched s)"
  using assms(1,2)
proof (induction sched arbitrary: s)
  case Nil
  then show ?case by simp
next
  case (Cons i sched)
  from Cons.IH [OF thread_step_inv [OF Cons.prems(1), of ops i]
      thread_step_progress [OF Cons.prems assms(3), of ops i]]
  show ?case
    by simp
qed

lemma initial_progress:
  assumes "list_all (attempt_ok pid q) attempts"
  shows "progress_inv pid q row (initial_system db attempts)"
proof -
  have "successes (initial_system db attempts) = 0"
    by (simp add: successes_def initial_system_def no_success_at_start)
  then show ?thesis
    using assms
    by (auto simp: progress_inv_def initial_system_def list_all_length)
qed

lemma attempt_ok_for: "attempt_ok pid q a \<Longrightarrow> attempt_for pid q a"
  by (simp add: attempt_ok_def attempt_for_def)

lemmas race_defs = thread_step_def initial_system_def open_transaction_def lock_product_def
  select_for_update_nowait_def purchase_locked_def stock_check_def write_phase_def
  purchase_split_def py_mul_int_def py_float_def commission_rate_def
  answer_def purchase_exit_def handle_exception_def finally_cleanup_def
  cleanup_defs world_defs fresh_world_def at_store_def locked_by_others_def
  all_done_def successes_def stock_of_def

lemmas sample_defs = sample_db_def sample_attempts_def sample_request_def sample_env_def
  sample_vase_def sample_bowl_def sample_db_two_units_def exact_ops_def

text \<open>
  C7, as the code has it. \<open>N\<close> attempts race for \<open>q > 0\<close> units each of one product with
  stock \<open>S \<ge> 0\<close>. Under every schedule, at every moment, whatever the type of the price
  and wherever the store fails: the stock is \<open>S - q * successes\<close> and is not negative, so
  at most \<open>S div q\<close> attempts, and at most \<open>N\<close>, have succeeded.

  When moreover the price is a float, the store does not fail and every request has its
  client address:
  \<^item> every answer is Success, the 409 of a lock conflict, or the 400 of a sold out or
    insufficient stock;
  \<^item> once all have answered, at least one has succeeded if there was an attempt and the
    stock sufficed for it;
  \<^item> with \<open>S = 1\<close>, \<open>q = 1\<close> and two attempts, once both have answered, exactly one has
    succeeded, the stock is 0, and the other attempt answered the lock conflict or SOLD OUT.
\<close>

theorem no_oversell:
  assumes row: "products db pid = Some row"
    and stock: "0 \<le> stock_quantity row" and q: "0 < q"
    and attempts: "list_all (attempt_for pid q) attempts"
    and s: "s = run ops sched (initial_system db attempts)"
  shows "stock_of s pid = Some (stock_quantity row - q * int (successes s)) \<and>
         0 \<le> stock_quantity row - q * int (successes s) \<and>
         int (successes s) \<le> stock_quantity row div q \<and>
         successes s \<le> length attempts \<and>
         ((\<exists>p. price row = PyFloat p) \<and> list_all (attempt_ok pid q) attempts \<longrightarrow>
            (\<forall>r. Done r \<in> set (threads s) \<longrightarrow> outcome_ok q r) \<and>
            (all_done s \<and> attempts \<noteq> [] \<and> q \<le> stock_quantity row \<longrightarrow> 1 \<le> successes s) \<and>
            (all_done s \<and> length attempts = 2 \<and> stock_quantity row = 1 \<and> q = 1 \<longrightarrow>
               successes s = 1 \<and> stock_of s pid = Some 0 \<and>
               (\<forall>r. Done r \<in> set (threads s) \<longrightarrow>
                  (\<exists>resp. r = Inr resp) \<or> r = Inl lock_contention \<or> r = Inl sold_out)))"
proof -
  note start = initial_inv [OF row stock attempts]
  from run_inv [OF start, of ops sched]
  have inv: "race_inv pid q row s" and len: "length (threads s) = length attempts"
    by (simp_all add: s initial_system_def)
  have a: "stock_of s pid = Some (stock_quantity row - q * int (successes s))"
    using race_inv_current_row [OF inv] by (simp add: stock_of_def)
  have b: "0 \<le> stock_quantity row - q * int (successes s)"
    using inv by (simp add: race_inv_def)
  have c: "int (successes s) \<le> stock_quantity row div q"
    by (rule units_sold_bound [OF q b])
  have d: "successes s \<le> length attempts"
    unfolding successes_def len [symmetric] by (rule length_filter_le)
  have rest: "(\<forall>r. Done r \<in> set (threads s) \<longrightarrow> outcome_ok q r) \<and>
      (all_done s \<and> attempts \<noteq> [] \<and> q \<le> stock_quantity row \<longrightarrow> 1 \<le> successes s) \<and>
      (all_done s \<and> length attempts = 2 \<and> stock_quantity row = 1 \<and> q = 1 \<longrightarrow>
         successes s = 1 \<and> stock_of s pid = Some 0 \<and>
         (\<forall>r. Done r \<in> set (threads s) \<longrightarrow>
            (\<exists>resp. r = Inr resp) \<or> r = Inl lock_contention \<or> r = Inl sold_out))"
    if float: "price row = PyFloat p" and ok: "list_all (attempt_ok pid q) attempts" for p
  proof -
    from run_progress [OF start initial_progress [OF ok] float, of ops sched]
    have live: "progress_inv pid q row s"
      by (simp add: s)
    have e: "outcome_ok q r" if "Done r \<in> set (threads s)" for r
    proof -
      from that obtain i where "i < length (threads s)" "threads s ! i = Done r"
        by (auto simp: in_set_conv_nth)
      with progress_inv_thread_ok [OF live, of i] show ?thesis
        by simp
    qed
    have f: "1 \<le> successes s" if "all_done s" "attempts \<noteq> []" "q \<le> stock_quantity row"
    proof (rule ccontr)
      assume "\<not> 1 \<le> successes s"
      then have none: "successes s = 0"
        by simp
      have all: "is_done (threads s ! i)" if "i < length (threads s)" for i
        using \<open>all_done s\<close> that by (simp add: all_done_def list_all_length)
      have "0 < length (threads s)"
        using that(2) len by simp
      then have "\<exists>i < length (threads s). is_done (threads s ! i)"
        using all by blast
      with live none that(3) obtain j where "j < length (threads s)" "is_locked (threads s ! j)"
        unfolding progress_inv_def by blast
      with all [of j] show False
        by (simp add: done_not_locked)
    qed
    have g: "successes s = 1 \<and> stock_of s pid = Some 0 \<and>
             (\<forall>r. Done r \<in> set (threads s) \<longrightarrow>
                (\<exists>resp. r = Inr resp) \<or> r = Inl lock_contention \<or> r = Inl sold_out)"
      if "all_done s" "length attempts = 2" "stock_quantity row = 1" "q = 1"
    proof -
      have "attempts \<noteq> []"
        using that(2) by auto
      from f [OF that(1) this] that(3,4) have "1 \<le> successes s"
        by simp
      moreover from c that(3,4) have "successes s \<le> 1"
        by simp
      ultimately have one: "successes s = 1"
        by simp
      have "(\<exists>resp. r = Inr resp) \<or> r = Inl lock_contention \<or> r = Inl sold_out"
        if "Done r \<in> set (threads s)" for r
        using e [OF that] \<open>q = 1\<close> by (auto simp: outcome_ok_def)
      then show ?thesis
        using one a that(3,4) by simp
    qed
    show ?thesis
      using e f g by blast
  qed
  show ?thesis
    using a b c d rest by blast
qed

text \<open>
  Two buyers and the one unit of product 7: the first takes the lock, the second is turned
  away with 409, the first commits.
\<close>

theorem no_oversell_witness:
  "products sample_db 7 = Some sample_vase \<and> 0 \<le> stock_quantity sample_vase \<and>
   list_all (attempt_for 7 1) sample_attempts \<and>
   price sample_vase = PyFloat 100 \<and> list_all (attempt_ok 7 1) sample_attempts \<and>
   all_done (run exact_ops [0, 1, 0] (initial_system sample_db sample_attempts)) \<and>
   successes (run exact_ops [0, 1, 0] (initial_system sample_db sample_attempts)) = 1 \<and>
   stock_of (run exact_ops [0, 1, 0] (initial_system sample_db sample_attempts)) 7 = Some 0"
proof -
  have row: "products sample_db 7 = Some sample_vase"
    by (simp add: sample_db_def)
  have float: "price sample_vase = PyFloat 100" and stock: "0 \<le> stock_quantity sample_vase"
    and one: "stock_quantity sample_vase = 1"
    by (simp_all add: sample_vase_def)
  have attempts: "list_all (attempt_ok 7 1) sample_attempts" and two: "length sample_attempts = 2"
    and target: "list_all (attempt_for 7 1) sample_attempts"
    by (simp_all add: sample_attempts_def attempt_ok_def attempt_for_def sample_request_def
        sample_env_def)
  have finished: "all_done (run exact_ops [0, 1, 0] (initial_system sample_db sample_attempts))"
    by (simp add: race_defs sample_defs Let_def)
  from no_oversell [OF row stock _ target refl, of exact_ops "[0, 1, 0]"]
    row float stock attempts target finished two one
  show ?thesis
    by simp
qed

text \<open>
  The count \<open>min N (S div q)\<close> fails on two units and two buyers of one unit each: the second buyer
  asks while the first holds the lock and is turned away with 409, so one attempt succeeds,
  not \<open>min 2 (2 div 1) = 2\<close>, and one unit stays in stock.
\<close>

theorem concurrent_successes_counterexample:
  "stock_of (initial_system sample_db_two_units sample_attempts) 7 = Some 2 \<and>
   list_all (attempt_ok 7 1) sample_attempts \<and> length sample_attempts = 2 \<and>
   all_done (run exact_ops [0, 1, 0] (initial_system sample_db_two_units sample_attempts)) \<and>
   successes (run exact_ops [0, 1, 0] (initial_system sample_db_two_units sample_attempts)) = 1 \<and>
   stock_of (run exact_ops [0, 1, 0] (initial_system sample_db_two_units sample_attempts)) 7 =
     Some 1 \<and>
   successes (run exact_ops [0, 1, 0] (initial_system sample_db_two_units sample_attempts)) \<noteq>
     min (length sample_attempts) (nat (2 div 1))"
  by (simp add: race_defs sample_defs attempt_ok_def Let_def)

end
